theory Spec2Isabelle
  imports Main "HOL-Library.Word"
begin

section \<open>Strings of the Go standard library\<close>

text \<open>
  A Go string is a sequence of bytes; \<open>string\<close> (a list of 8-bit characters) models it
  byte for byte. The functions of package \<open>strings\<close> that the client calls are written
  here as Go documents them. White space is what \<open>unicode.IsSpace\<close> accepts, so the
  UTF-8 encodings of the non-ASCII space runes are recognised as well.
\<close>

definition nl :: char where
  "nl = CHR 0x0A"

definition isAsciiSpace :: "char \<Rightarrow> bool" where
  "isAsciiSpace c = (c = CHR 0x09 \<or> c = CHR 0x0A \<or> c = CHR 0x0B \<or> c = CHR 0x0C
                     \<or> c = CHR 0x0D \<or> c = CHR 0x20)"

definition isDigit :: "char \<Rightarrow> bool" where
  "isDigit c = (48 \<le> (of_char c :: nat) \<and> (of_char c :: nat) \<le> 57)"

text \<open>
  \<open>spaceWidth s\<close> is the number of bytes of the white-space rune that \<open>s\<close> starts
  with, and 0 when it starts with none: U+0009..U+000D and U+0020 in one byte,
  U+0085 and U+00A0 in two, U+1680, U+2000..U+200A, U+2028, U+2029, U+202F, U+205F
  and U+3000 in three.
\<close>

definition isSpace3 :: "char \<Rightarrow> char \<Rightarrow> char \<Rightarrow> bool" where
  "isSpace3 c d e =
     (if c = CHR 0xE1 then d = CHR 0x9A \<and> e = CHR 0x80
      else if c = CHR 0xE2 then
        (d = CHR 0x80 \<and> ((128 \<le> (of_char e :: nat) \<and> (of_char e :: nat) \<le> 138)
                          \<or> e = CHR 0xA8 \<or> e = CHR 0xA9 \<or> e = CHR 0xAF))
        \<or> (d = CHR 0x81 \<and> e = CHR 0x9F)
      else if c = CHR 0xE3 then d = CHR 0x80 \<and> e = CHR 0x80
      else False)"

definition isSpace2 :: "char \<Rightarrow> char \<Rightarrow> bool" where
  "isSpace2 c d = (c = CHR 0xC2 \<and> (d = CHR 0x85 \<or> d = CHR 0xA0))"

fun spaceWidth :: "string \<Rightarrow> nat" where
  "spaceWidth [] = 0"
| "spaceWidth [c] = (if isAsciiSpace c then 1 else 0)"
| "spaceWidth [c, d] = (if isAsciiSpace c then 1 else if isSpace2 c d then 2 else 0)"
| "spaceWidth (c # d # e # _) =
     (if isAsciiSpace c then 1 else if isSpace2 c d then 2
      else if isSpace3 c d e then 3 else 0)"

text \<open>The same at the end of a string, read on the reversed bytes.\<close>

fun spaceWidthRev :: "string \<Rightarrow> nat" where
  "spaceWidthRev [] = 0"
| "spaceWidthRev [c] = (if isAsciiSpace c then 1 else 0)"
| "spaceWidthRev [d, c] = (if isAsciiSpace d then 1 else if isSpace2 c d then 2 else 0)"
| "spaceWidthRev (e # d # c # _) =
     (if isAsciiSpace e then 1 else if isSpace2 d e then 2
      else if isSpace3 c d e then 3 else 0)"

lemma spaceWidth_le: "spaceWidth s \<le> length s"
  by (induction s rule: spaceWidth.induct) auto

lemma spaceWidthRev_le: "spaceWidthRev s \<le> length s"
  by (induction s rule: spaceWidthRev.induct) auto

function trimLeftSpace :: "string \<Rightarrow> string" where
  "trimLeftSpace s = (if spaceWidth s = 0 then s else trimLeftSpace (drop (spaceWidth s) s))"
  by pat_completeness auto
termination
proof (relation "measure length")
  fix s :: string
  assume "spaceWidth s \<noteq> 0"
  moreover have "spaceWidth s \<le> length s" by (rule spaceWidth_le)
  ultimately show "(drop (spaceWidth s) s, s) \<in> measure length" by simp
qed simp

function trimRevSpace :: "string \<Rightarrow> string" where
  "trimRevSpace r =
     (if spaceWidthRev r = 0 then r else trimRevSpace (drop (spaceWidthRev r) r))"
  by pat_completeness auto
termination
proof (relation "measure length")
  fix r :: string
  assume "spaceWidthRev r \<noteq> 0"
  moreover have "spaceWidthRev r \<le> length r" by (rule spaceWidthRev_le)
  ultimately show "(drop (spaceWidthRev r) r, r) \<in> measure length" by simp
qed simp

declare trimLeftSpace.simps [simp del] trimRevSpace.simps [simp del]

text \<open>\<open>strings.TrimSpace\<close>: leading and trailing white space removed.\<close>

definition TrimSpace :: "string \<Rightarrow> string" where
  "TrimSpace s = rev (trimRevSpace (rev (trimLeftSpace s)))"

text \<open>\<open>strings.TrimRight(s, cutset)\<close> for a cutset of ASCII bytes.\<close>

definition TrimRight :: "string \<Rightarrow> string \<Rightarrow> string" where
  "TrimRight s cutset = rev (dropWhile (\<lambda>c. c \<in> set cutset) (rev s))"

text \<open>\<open>strings.HasPrefix\<close> and \<open>strings.Contains\<close>.\<close>

definition HasPrefix :: "string \<Rightarrow> string \<Rightarrow> bool" where
  "HasPrefix s p = (take (length p) s = p)"

fun Contains :: "string \<Rightarrow> string \<Rightarrow> bool" where
  "Contains [] sub = (sub = [])"
| "Contains (c # cs) sub = (HasPrefix (c # cs) sub \<or> Contains cs sub)"

text \<open>\<open>strings.ContainsAny(s, chars)\<close> for ASCII \<open>chars\<close>.\<close>

definition ContainsAny :: "string \<Rightarrow> string \<Rightarrow> bool" where
  "ContainsAny s chars = list_ex (\<lambda>c. c \<in> set chars) s"

text \<open>\<open>strings.Split(s, sep)\<close> for a separator of one byte: always at least one piece.\<close>

fun Split :: "string \<Rightarrow> char \<Rightarrow> string list" where
  "Split [] sep = [[]]"
| "Split (c # cs) sep =
     (if c = sep then [] # Split cs sep
      else (case Split cs sep of [] \<Rightarrow> [[c]] | p # ps \<Rightarrow> (c # p) # ps))"

text \<open>\<open>strings.Replace(s, old, new, 1)\<close> for \<open>old\<close> of one byte: the first occurrence only.\<close>

fun Replace1 :: "string \<Rightarrow> char \<Rightarrow> string \<Rightarrow> string" where
  "Replace1 [] old new = []"
| "Replace1 (c # cs) old new = (if c = old then new @ cs else c # Replace1 cs old new)"

text \<open>
  \<open>strings.Fields\<close>: the maximal runs of bytes between white-space runes. \<open>cur\<close> is the
  field being collected.
\<close>

function fieldsFrom :: "string \<Rightarrow> string \<Rightarrow> string list" where
  "fieldsFrom cur s =
     (if s = [] then (if cur = [] then [] else [cur])
      else if spaceWidth s = 0 then fieldsFrom (cur @ [hd s]) (tl s)
      else (if cur = [] then [] else [cur]) @ fieldsFrom [] (drop (spaceWidth s) s))"
  by pat_completeness auto
termination
  by (relation "measure (\<lambda>(cur, s). length s)") auto

declare fieldsFrom.simps [simp del]

definition Fields :: "string \<Rightarrow> string list" where
  "Fields s = fieldsFrom [] s"

section \<open>Session transport (socket.go)\<close>

text \<open>
  One connection to the control socket, as \<open>querySocket\<close> sees it: the error of
  \<open>net.Dial\<close> if it fails, the error of writing the command if that fails, the bytes
  the daemon sends before the stream ends, and the error the reader reports once they
  are used up (end of file, or the deadline of ten seconds).
\<close>

record conn =
  dial_err :: "string option"
  send_err :: "string option"
  incoming :: string
  read_err :: string

datatype errKind = ErrSyntax | ErrRange

datatype error =
    FailedToConnect string string
  | FailedToReadGreeting string
  | UnexpectedGreeting string
  | FailedToSendCommand string
  | FailedToReadResponse string
  | BIRDError string
  | ParseError string
  | NumError string string errKind

text \<open>The message of each error, as \<open>fmt.Errorf\<close>, \<open>net\<close> and \<open>strconv\<close> build it.\<close>

fun Error :: "error \<Rightarrow> string" where
  "Error (FailedToConnect socketPath cause) =
     ''failed to connect to socket '' @ socketPath @ '': '' @ cause"
| "Error (FailedToReadGreeting cause) = ''failed to read greeting: '' @ cause"
| "Error (UnexpectedGreeting greeting) = ''unexpected greeting: '' @ greeting"
| "Error (FailedToSendCommand cause) = ''failed to send command: '' @ cause"
| "Error (FailedToReadResponse cause) = ''failed to read response: '' @ cause"
| "Error (BIRDError line) = ''BIRD error: '' @ line"
| "Error (ParseError text) = ''invalid CIDR address: '' @ text"
| "Error (NumError fn num kind) =
     ''strconv.'' @ fn @ '': parsing '' @ [CHR 0x22] @ num @ [CHR 0x22] @ '': ''
       @ (case kind of ErrSyntax \<Rightarrow> ''invalid syntax'' | ErrRange \<Rightarrow> ''value out of range'')"

text \<open>
  \<open>reader.ReadString('\n')\<close> on the bytes still to come: the line up to and with the
  first newline and the bytes after it, or \<open>None\<close> when the stream ends first.
\<close>

definition ReadString :: "string \<Rightarrow> (string \<times> string) option" where
  "ReadString inp =
     (if nl \<in> set inp
      then Some (takeWhile (\<lambda>c. c \<noteq> nl) inp @ [nl], tl (dropWhile (\<lambda>c. c \<noteq> nl) inp))
      else None)"

text \<open>What one turn of the response loop does: \<open>continue\<close>, \<open>break\<close> or \<open>return\<close>.\<close>

datatype step = Continue string | Break string | Return error

definition processLine :: "string \<Rightarrow> string \<Rightarrow> step" where
  "processLine output line =
     (if length line > 0 \<and> line ! 0 = CHR '' '' then Continue (output @ drop 1 line @ [nl])
      else if length line \<ge> 4 then
        (let code = take 4 line; isNumeric = list_all isDigit code in
         if isNumeric then
           (if code ! 0 = CHR ''0'' then
              (if length line > 5 \<and> (line ! 4 = CHR '' '' \<or> line ! 4 = CHR ''-'')
               then Break (output @ drop 5 line @ [nl])
               else Break output)
            else if code ! 0 = CHR ''8'' \<or> code ! 0 = CHR ''9'' then Return (BIRDError line)
            else if 49 \<le> (of_char (code ! 0) :: nat) \<and> (of_char (code ! 0) :: nat) \<le> 57 then
              (if length line > 5 then
                 (if line ! 4 = CHR ''-'' \<or> line ! 4 = CHR '' ''
                  then Continue (output @ drop 5 line @ [nl])
                  else Continue output)
               else Continue output)
            else Continue output)
         else Continue (output @ line @ [nl]))
      else if length line > 0 then Continue (output @ line @ [nl])
      else Continue output)"

lemma ReadString_shorter: "ReadString inp = Some (l, rest) \<Longrightarrow> length rest < length inp"
proof -
  assume a: "ReadString inp = Some (l, rest)"
  then have m: "nl \<in> set inp" and r: "rest = tl (dropWhile (\<lambda>c. c \<noteq> nl) inp)"
    by (auto simp: ReadString_def split: if_splits)
  from m have "dropWhile (\<lambda>c. c \<noteq> nl) inp \<noteq> []" by simp
  then have "length (tl (dropWhile (\<lambda>c. c \<noteq> nl) inp)) < length (dropWhile (\<lambda>c. c \<noteq> nl) inp)"
    by simp
  also have "\<dots> \<le> length inp" by (rule length_dropWhile_le)
  finally show ?thesis using r by simp
qed

text \<open>The response loop: \<open>output\<close> is the builder, \<open>inp\<close> the bytes not yet read.\<close>

function readResponse :: "string \<Rightarrow> string \<Rightarrow> string \<Rightarrow> string \<times> error option" where
  "readResponse eof output inp =
     (case ReadString inp of
        None \<Rightarrow> ([], Some (FailedToReadResponse eof))
      | Some (line, rest) \<Rightarrow>
          (case processLine output (TrimRight line [nl]) of
             Continue output' \<Rightarrow> readResponse eof output' rest
           | Break output' \<Rightarrow> (TrimSpace output', None)
           | Return e \<Rightarrow> ([], Some e)))"
  by pat_completeness auto
termination
  by (relation "measure (\<lambda>(eof, output, inp). length inp)") (auto dest: ReadString_shorter)

declare readResponse.simps [simp del]

definition querySocket :: "conn \<Rightarrow> string \<Rightarrow> string \<Rightarrow> string \<times> error option" where
  "querySocket c socketPath command =
     (case dial_err c of
        Some cause \<Rightarrow> ([], Some (FailedToConnect socketPath cause))
      | None \<Rightarrow>
          (case ReadString (incoming c) of
             None \<Rightarrow> ([], Some (FailedToReadGreeting (read_err c)))
           | Some (greeting, rest) \<Rightarrow>
               if \<not> HasPrefix greeting ''0001'' then ([], Some (UnexpectedGreeting greeting))
               else (case send_err c of
                       Some cause \<Rightarrow> ([], Some (FailedToSendCommand cause))
                     | None \<Rightarrow> readResponse (read_err c) [] rest)))"

text \<open>
  Two notions for stating what the loop does over several lines: the bytes that a list
  of lines makes on the wire, and the builder after the loop has taken a list of lines
  none of which ended it.
\<close>

fun bufferedAfter :: "string \<Rightarrow> string list \<Rightarrow> string option" where
  "bufferedAfter output [] = Some output"
| "bufferedAfter output (line # lines) =
     (case processLine output line of
        Continue output' \<Rightarrow> bufferedAfter output' lines
      | Break output' \<Rightarrow> None
      | Return e \<Rightarrow> None)"

definition wire :: "string list \<Rightarrow> string" where
  "wire lines = concat (map (\<lambda>line. line @ [nl]) lines)"

section \<open>Regular expressions of the decoders\<close>

text \<open>
  The patterns the decoders compile are sequences of literals and of one-character
  classes under \<open>+\<close> or \<open>?\<close>, some of them captured. \<open>Rep cap cl lo hi\<close> is the class
  \<open>cl\<close> repeated at least \<open>lo\<close> and at most \<open>hi\<close> times, greedily, captured when
  \<open>cap\<close> holds. The matcher prefers what a backtracking engine finds first, which is
  the match \<open>regexp\<close> returns: the leftmost start, and at each repetition the longest
  run that lets the rest match.
\<close>

datatype cclass = Digit | Space | OneOf string

fun inClass :: "cclass \<Rightarrow> char \<Rightarrow> bool" where
  "inClass Digit c = isDigit c"
| "inClass Space c = (c = CHR 0x09 \<or> c = CHR 0x0A \<or> c = CHR 0x0C \<or> c = CHR 0x0D \<or> c = CHR 0x20)"
| "inClass (OneOf cs) c = (c \<in> set cs)"

datatype item = Lit string | Rep bool cclass nat "nat option"

fun firstMatch :: "(nat \<Rightarrow> 'a option) \<Rightarrow> nat list \<Rightarrow> 'a option" where
  "firstMatch f [] = None"
| "firstMatch f (k # ks) = (case f k of Some r \<Rightarrow> Some r | None \<Rightarrow> firstMatch f ks)"

primrec matchHere :: "item list \<Rightarrow> string \<Rightarrow> (string \<times> string list) option" where
  "matchHere [] s = Some ([], [])"
| "matchHere (it # r) s =
     (case it of
        Lit l \<Rightarrow>
          if HasPrefix s l
          then map_option (\<lambda>(m, caps). (l @ m, caps)) (matchHere r (drop (length l) s))
          else None
      | Rep cap cl lo hi \<Rightarrow>
          (let run = length (takeWhile (inClass cl) s);
               most = (case hi of None \<Rightarrow> run | Some h \<Rightarrow> min h run)
           in firstMatch
                (\<lambda>k. map_option
                        (\<lambda>(m, caps). (take k s @ m, (if cap then [take k s] else []) @ caps))
                        (matchHere r (drop k s)))
                (rev [lo ..< Suc most])))"

text \<open>\<open>FindStringSubmatch\<close>: the match and its groups, or \<open>nil\<close> (the empty list).\<close>

fun FindStringSubmatch :: "item list \<Rightarrow> string \<Rightarrow> string list" where
  "FindStringSubmatch re s =
     (case matchHere re s of
        Some (m, caps) \<Rightarrow> m # caps
      | None \<Rightarrow> (case s of [] \<Rightarrow> [] | _ # t \<Rightarrow> FindStringSubmatch re t))"

declare FindStringSubmatch.simps [simp del]

text \<open>\<open>FindString\<close>: the text of the match, or the empty string.\<close>

definition FindString :: "item list \<Rightarrow> string \<Rightarrow> string" where
  "FindString re s = (case FindStringSubmatch re s of [] \<Rightarrow> [] | m # _ \<Rightarrow> m)"

section \<open>Numbers of package strconv\<close>

type_synonym uint32 = "32 word"
type_synonym uint64 = "64 word"

definition maxUint64 :: uint64 where
  "maxUint64 = - 1"

definition digitVal :: "char \<Rightarrow> uint64" where
  "digitVal c = of_char c - 48"

text \<open>
  The digit loop of \<open>strconv.ParseUint\<close> in base 10, on \<open>uint64\<close>: any byte that is not
  a decimal digit is a syntax error, a value above \<open>maxVal\<close> a range error.
\<close>

fun parseUintLoop :: "uint64 \<Rightarrow> uint64 \<Rightarrow> string \<Rightarrow> errKind + uint64" where
  "parseUintLoop maxVal n [] = Inr n"
| "parseUintLoop maxVal n (c # cs) =
     (if \<not> isDigit c then Inl ErrSyntax
      else if n \<ge> maxUint64 div 10 + 1 then Inl ErrRange
      else (let n10 = n * 10; n1 = n10 + digitVal c in
            if n1 < n10 \<or> n1 > maxVal then Inl ErrRange
            else parseUintLoop maxVal n1 cs))"

definition ParseUint :: "string \<Rightarrow> nat \<Rightarrow> error + uint64" where
  "ParseUint s bitSize =
     (if s = [] then Inl (NumError ''ParseUint'' s ErrSyntax)
      else (case parseUintLoop (push_bit bitSize 1 - 1) 0 s of
              Inl kind \<Rightarrow> Inl (NumError ''ParseUint'' s kind)
            | Inr n \<Rightarrow> Inr n))"

text \<open>The number a string of decimal digits writes.\<close>

definition fromDigits :: "int \<Rightarrow> string \<Rightarrow> int" where
  "fromDigits n s = foldl (\<lambda>n c. n * 10 + (of_char c - 48)) n s"

definition decimal :: "string \<Rightarrow> int" where
  "decimal s = fromDigits 0 s"

text \<open>
  \<open>strconv.Atoi\<close> on a 64-bit \<open>int\<close>: an optional sign, then decimal digits only, and a
  value that fits.
\<close>

definition Atoi :: "string \<Rightarrow> error + int" where
  "Atoi s =
     (let neg = (s \<noteq> [] \<and> hd s = CHR ''-'');
          body = (if s \<noteq> [] \<and> (hd s = CHR ''-'' \<or> hd s = CHR ''+'') then tl s else s)
      in if body = [] \<or> \<not> list_all isDigit body then Inl (NumError ''Atoi'' s ErrSyntax)
         else if (if neg then decimal body > 2 ^ 63 else decimal body \<ge> 2 ^ 63)
         then Inl (NumError ''Atoi'' s ErrRange)
         else Inr (if neg then - decimal body else decimal body))"

text \<open>\<open>%d\<close> of \<open>fmt.Sprintf\<close> on an unsigned number.\<close>

function formatUint :: "int \<Rightarrow> string" where
  "formatUint n =
     (if n < 10 then [char_of (48 + n)] else formatUint (n div 10) @ [char_of (48 + n mod 10)])"
  by pat_completeness auto
termination
  by (relation "measure nat") auto

declare formatUint.simps [simp del]

section \<open>Response decoders\<close>

text \<open>
  Every query opens a connection of its own. The world gives, for a socket path and a
  command, the connection that the query of this command meets; no decoder sends the
  same command twice.
\<close>

type_synonym world = "string \<Rightarrow> string \<Rightarrow> conn"

record BirdClient =
  SocketPath :: string

definition query :: "world \<Rightarrow> BirdClient \<Rightarrow> string \<Rightarrow> string \<times> error option" where
  "query w b command = querySocket (w (SocketPath b) command) (SocketPath b) command"

record Totals =
  V4Rib :: uint32
  V4Fib :: uint32
  V6Rib :: uint32
  V6Fib :: uint32

record ASNs =
  As4 :: uint32
  As6 :: uint32
  As10 :: uint32
  As4Only :: uint32
  As6Only :: uint32
  AsBoth :: uint32

record Roas =
  V4v :: uint32
  V4i :: uint32
  V4u :: uint32
  V6v :: uint32
  V6i :: uint32
  V6u :: uint32

record ASPath =
  Path :: "uint32 list"
  Set :: "uint32 list"

record 'n VRP =
  Prefix :: 'n
  Max :: int

subsection \<open>stringToUint32\<close>

definition stringToUint32 :: "string \<Rightarrow> uint32" where
  "stringToUint32 s =
     (let s' = TrimSpace s in
      if s' = [] then 0
      else (case ParseUint s' 32 of Inl err \<Rightarrow> 0 | Inr val \<Rightarrow> ucast val))"

subsection \<open>decodeASPaths and GetASPathFromIP\<close>

fun decodeLoop :: "string list \<Rightarrow> bool \<Rightarrow> uint32 list \<Rightarrow> uint32 list
    \<Rightarrow> uint32 list \<times> uint32 list" where
  "decodeLoop [] isSet path aset = (path, aset)"
| "decodeLoop (as # paths) isSet path aset =
     (if ContainsAny as ''{}'' then decodeLoop paths True path aset
      else if \<not> isSet then decodeLoop paths isSet (path @ [stringToUint32 as]) aset
      else decodeLoop paths isSet path (aset @ [stringToUint32 as]))"

definition decodeASPaths :: "string \<Rightarrow> uint32 list \<times> uint32 list" where
  "decodeASPaths in0 =
     (let in1 = (if ContainsAny in0 ''{}''
                 then Replace1 (Replace1 in0 (CHR ''{'') ''{ '') (CHR ''}'') '' }''
                 else in0)
      in decodeLoop (Fields in1) False [] [])"

text \<open>\<open>strings.SplitN(s, sep, 2)\<close> for a separator that is not empty.\<close>

fun cutAt :: "string \<Rightarrow> string \<Rightarrow> (string \<times> string) option" where
  "cutAt [] sep = None"
| "cutAt (c # cs) sep =
     (if HasPrefix (c # cs) sep then Some ([], drop (length sep) (c # cs))
      else map_option (\<lambda>(a, b). (c # a, b)) (cutAt cs sep))"

definition SplitN2 :: "string \<Rightarrow> string \<Rightarrow> string list" where
  "SplitN2 s sep = (case cutAt s sep of None \<Rightarrow> [s] | Some (a, b) \<Rightarrow> [a, b])"

fun asPathLines :: "string list \<Rightarrow> ASPath \<times> bool \<times> error option" where
  "asPathLines [] = (\<lparr>Path = [], Set = []\<rparr>, False, None)"
| "asPathLines (line # lines) =
     (if Contains line ''BGP.as_path:'' then
        (let parts = SplitN2 line ''BGP.as_path:'' in
         if length parts = 2 then
           (case decodeASPaths (TrimSpace (parts ! 1)) of
              (path, aset) \<Rightarrow> (\<lparr>Path = path, Set = aset\<rparr>, True, None))
         else asPathLines lines)
      else asPathLines lines)"

text \<open>The address arrives as the text \<open>ip.String()\<close> gives.\<close>

definition GetASPathFromIP :: "world \<Rightarrow> BirdClient \<Rightarrow> string \<Rightarrow> ASPath \<times> bool \<times> error option" where
  "GetASPathFromIP w b ip =
     (case query w b (''show route primary all for '' @ ip) of
        (out, Some err) \<Rightarrow> (\<lparr>Path = [], Set = []\<rparr>, False, Some err)
      | (out, None) \<Rightarrow>
          if out = [] \<or> \<not> Contains out ''BGP.as_path:''
          then (\<lparr>Path = [], Set = []\<rparr>, False, None)
          else asPathLines (Split out nl))"

subsection \<open>GetBGPTotal\<close>

text \<open>\<^verbatim>\<open>(\d+)\s+of\s+\d+\s+routes\s+for\s+(\d+)\s+networks\<close>\<close>

definition reTotals :: "item list" where
  "reTotals =
     [Rep True Digit 1 None, Rep False Space 1 None, Lit ''of'', Rep False Space 1 None,
      Rep False Digit 1 None, Rep False Space 1 None, Lit ''routes'', Rep False Space 1 None,
      Lit ''for'', Rep False Space 1 None, Rep True Digit 1 None, Rep False Space 1 None,
      Lit ''networks'']"

definition totalsLine :: "Totals \<Rightarrow> string \<Rightarrow> Totals" where
  "totalsLine t line =
     (let matches = FindStringSubmatch reTotals line in
      if length matches \<ge> 3 then
        (if Contains line ''master4''
         then t\<lparr>V4Rib := stringToUint32 (matches ! 1), V4Fib := stringToUint32 (matches ! 2)\<rparr>
         else if Contains line ''master6''
         then t\<lparr>V6Rib := stringToUint32 (matches ! 1), V6Fib := stringToUint32 (matches ! 2)\<rparr>
         else t)
      else t)"

definition GetBGPTotal :: "world \<Rightarrow> BirdClient \<Rightarrow> Totals \<times> error option" where
  "GetBGPTotal w b =
     (let t = \<lparr>V4Rib = 0, V4Fib = 0, V6Rib = 0, V6Fib = 0\<rparr> in
      case query w b ''show route count'' of
        (out, Some err) \<Rightarrow> (t, Some err)
      | (out, None) \<Rightarrow> (foldl totalsLine t (Split out nl), None))"

subsection \<open>GetTotalSourceASNs\<close>

text \<open>
  A \<open>map[string]bool\<close> that only ever stores \<open>true\<close> is modelled by its keys, kept
  without repetition. Go leaves the order in which \<open>range\<close> visits the keys open: each
  \<open>range\<close> over a map takes an order \<open>ord\<close>, and \<open>rangeOrder ord\<close> says that
  \<open>ord\<close> only rearranges.
\<close>

definition rangeOrder :: "(string list \<Rightarrow> string list) \<Rightarrow> bool" where
  "rangeOrder ord = (\<forall>ks. set (ord ks) = set ks \<and> length (ord ks) = length ks)"

definition setKey :: "string list \<Rightarrow> string \<Rightarrow> string list" where
  "setKey keys k = (if k \<in> set keys then keys else keys @ [k])"

text \<open>\<^verbatim>\<open>\[AS(\d+)[ie]?\]\<close>\<close>

definition reSourceASN :: "item list" where
  "reSourceASN = [Lit ''[AS'', Rep True Digit 1 None, Rep False (OneOf ''ie'') 0 (Some 1), Lit '']'']"

definition extractSourceASNs :: "(string list \<Rightarrow> string list) \<Rightarrow> string \<Rightarrow> string list" where
  "extractSourceASNs ord output =
     (let asnMap =
            foldl (\<lambda>asnMap line.
                     let matches = FindStringSubmatch reSourceASN line in
                     if length matches \<ge> 2 then setKey asnMap (matches ! 1) else asnMap)
                  [] (Split output nl)
      in ord asnMap)"

definition stringSliceToSet :: "(string list \<Rightarrow> string list) \<Rightarrow> string list \<Rightarrow> string list" where
  "stringSliceToSet ord strs = ord (foldl setKey [] strs)"

text \<open>Here the map is only looked up, a missing key reading \<open>false\<close>.\<close>

definition stringSliceDifference :: "string list \<Rightarrow> string list \<Rightarrow> string list" where
  "stringSliceDifference first second =
     (let secondSet = foldl (\<lambda>m s. m(s := True)) (\<lambda>s. False) second
      in filter (\<lambda>s. \<not> secondSet s) first)"

definition stringSliceIntersection :: "string list \<Rightarrow> string list \<Rightarrow> string list" where
  "stringSliceIntersection first second =
     (let secondSet = foldl (\<lambda>m s. m(s := True)) (\<lambda>s. False) second
      in filter (\<lambda>s. secondSet s) first)"

definition len32 :: "'a list \<Rightarrow> uint32" where
  "len32 xs = of_nat (length xs)"

definition GetTotalSourceASNs ::
    "(string list \<Rightarrow> string list) \<Rightarrow> (string list \<Rightarrow> string list) \<Rightarrow> (string list \<Rightarrow> string list)
     \<Rightarrow> world \<Rightarrow> BirdClient \<Rightarrow> ASNs \<times> error option" where
  "GetTotalSourceASNs ord4 ord6 ord10 w b =
     (let s = \<lparr>As4 = 0, As6 = 0, As10 = 0, As4Only = 0, As6Only = 0, AsBoth = 0\<rparr> in
      case query w b ''show route primary table master4'' of
        (out4, Some err) \<Rightarrow> (s, Some err)
      | (out4, None) \<Rightarrow>
          (case query w b ''show route primary table master6'' of
             (out6, Some err) \<Rightarrow> (s, Some err)
           | (out6, None) \<Rightarrow>
               (let as4Set = extractSourceASNs ord4 out4;
                    as6Set = extractSourceASNs ord6 out6;
                    as10Set = stringSliceToSet ord10 (as4Set @ as6Set);
                    as4Only = stringSliceDifference as4Set as6Set;
                    as6Only = stringSliceDifference as6Set as4Set;
                    asBoth = stringSliceIntersection as4Set as6Set
                in (\<lparr>As4 = len32 as4Set, As6 = len32 as6Set, As10 = len32 as10Set,
                     As4Only = len32 as4Only, As6Only = len32 as6Only, AsBoth = len32 asBoth\<rparr>,
                    None))))"

subsection \<open>GetROAs\<close>

definition extractRouteCount :: "string \<Rightarrow> uint32" where
  "extractRouteCount output =
     (let fields = Fields output in
      if length fields > 0 then stringToUint32 (fields ! 0) else 0)"

definition roaCount :: "string \<Rightarrow> string \<Rightarrow> string \<Rightarrow> string" where
  "roaCount table roa state =
     ''show route primary table '' @ table @ '' where roa_check('' @ roa @ '') = '' @ state
       @ '' count''"

definition GetROAs :: "world \<Rightarrow> BirdClient \<Rightarrow> Roas \<times> error option" where
  "GetROAs w b =
     (let r = \<lparr>V4v = 0, V4i = 0, V4u = 0, V6v = 0, V6i = 0, V6u = 0\<rparr> in
      case query w b (roaCount ''master4'' ''roa_v4'' ''ROA_VALID'') of
        (v4Valid, Some err) \<Rightarrow> (r, Some err)
      | (v4Valid, None) \<Rightarrow>
     (let r = r\<lparr>V4v := extractRouteCount v4Valid\<rparr> in
      case query w b (roaCount ''master4'' ''roa_v4'' ''ROA_INVALID'') of
        (v4Invalid, Some err) \<Rightarrow> (r, Some err)
      | (v4Invalid, None) \<Rightarrow>
     (let r = r\<lparr>V4i := extractRouteCount v4Invalid\<rparr> in
      case query w b (roaCount ''master4'' ''roa_v4'' ''ROA_UNKNOWN'') of
        (v4Unknown, Some err) \<Rightarrow> (r, Some err)
      | (v4Unknown, None) \<Rightarrow>
     (let r = r\<lparr>V4u := extractRouteCount v4Unknown\<rparr> in
      case query w b (roaCount ''master6'' ''roa_v6'' ''ROA_VALID'') of
        (v6Valid, Some err) \<Rightarrow> (r, Some err)
      | (v6Valid, None) \<Rightarrow>
     (let r = r\<lparr>V6v := extractRouteCount v6Valid\<rparr> in
      case query w b (roaCount ''master6'' ''roa_v6'' ''ROA_INVALID'') of
        (v6Invalid, Some err) \<Rightarrow> (r, Some err)
      | (v6Invalid, None) \<Rightarrow>
     (let r = r\<lparr>V6i := extractRouteCount v6Invalid\<rparr> in
      case query w b (roaCount ''master6'' ''roa_v6'' ''ROA_UNKNOWN'') of
        (v6Unknown, Some err) \<Rightarrow> (r, Some err)
      | (v6Unknown, None) \<Rightarrow> (r\<lparr>V6u := extractRouteCount v6Unknown\<rparr>, None)))))))"

subsection \<open>GetInvalids\<close>

text \<open>\<^verbatim>\<open>[\d]+\<close>\<close>

definition reNum :: "item list" where
  "reNum = [Rep False Digit 1 None]"

definition parseInvalidLine :: "string \<Rightarrow> item list \<Rightarrow> string \<times> string" where
  "parseInvalidLine line numRe =
     (let fields = Fields line in
      if length fields < 2 then ([], [])
      else (let prefix = fields ! 0 in
            if CHR ''['' \<notin> set line then ([], [])
            else (prefix, FindString numRe (dropWhile (\<lambda>c. c \<noteq> CHR ''['') line))))"

definition addInvalid :: "(string \<rightharpoonup> string list) \<Rightarrow> string \<Rightarrow> (string \<rightharpoonup> string list)" where
  "addInvalid invs line =
     (case parseInvalidLine line reNum of
        (prefix, asn) \<Rightarrow>
          if asn \<noteq> [] then invs(asn \<mapsto> (case invs asn of None \<Rightarrow> [] | Some ps \<Rightarrow> ps) @ [prefix])
          else invs)"

definition roaInvalid :: "string \<Rightarrow> string \<Rightarrow> string" where
  "roaInvalid table roa =
     ''show route primary table '' @ table @ '' where roa_check('' @ roa @ '') = ROA_INVALID''"

definition GetInvalids :: "world \<Rightarrow> BirdClient \<Rightarrow> (string \<rightharpoonup> string list) \<times> error option" where
  "GetInvalids w b =
     (let invs = Map.empty in
      case query w b (roaInvalid ''master4'' ''roa_v4'') of
        (out4, Some err) \<Rightarrow> (invs, Some err)
      | (out4, None) \<Rightarrow>
          (let invs = foldl addInvalid invs (Split out4 nl) in
           case query w b (roaInvalid ''master6'' ''roa_v6'') of
             (out6, Some err) \<Rightarrow> (invs, Some err)
           | (out6, None) \<Rightarrow> (foldl addInvalid invs (Split out6 nl), None)))"

subsection \<open>GetVRPs\<close>

text \<open>
  \<open>net.ParseCIDR\<close> belongs to the Go library; the decoder takes it as \<open>ParseCIDR\<close>,
  giving the network or the error.
\<close>

fun parseVRPsLoop :: "(string \<Rightarrow> error + 'n) \<Rightarrow> 'n VRP list \<Rightarrow> string list
    \<Rightarrow> 'n VRP list \<times> error option" where
  "parseVRPsLoop ParseCIDR vrps [] = (vrps, None)"
| "parseVRPsLoop ParseCIDR vrps (line # lines) =
     (let fields = Fields line in
      if length fields > 0 \<and> Contains (fields ! 0) ''-'' then
        (let parts = Split (fields ! 0) (CHR ''-'') in
         if length parts = 2 then
           (case ParseCIDR (parts ! 0) of
              Inl err \<Rightarrow> ([], Some err)
            | Inr prefix \<Rightarrow>
                (case Atoi (parts ! 1) of
                   Inl err \<Rightarrow> ([], Some err)
                 | Inr maxlen \<Rightarrow>
                     parseVRPsLoop ParseCIDR (vrps @ [\<lparr>Prefix = prefix, Max = maxlen\<rparr>]) lines))
         else parseVRPsLoop ParseCIDR vrps lines)
      else parseVRPsLoop ParseCIDR vrps lines)"

definition parseVRPs :: "(string \<Rightarrow> error + 'n) \<Rightarrow> string \<Rightarrow> 'n VRP list \<times> error option" where
  "parseVRPs ParseCIDR output = parseVRPsLoop ParseCIDR [] (Split output nl)"

definition GetVRPs :: "(string \<Rightarrow> error + 'n) \<Rightarrow> world \<Rightarrow> BirdClient \<Rightarrow> uint32
    \<Rightarrow> 'n VRP list \<times> error option" where
  "GetVRPs ParseCIDR w b asn =
     (let VRPs = [];
          cmd4 = ''show route all table roa_v4 where net.asn='' @ formatUint (uint asn) in
      case query w b cmd4 of
        (out4, Some err) \<Rightarrow> (VRPs, Some err)
      | (out4, None) \<Rightarrow>
          (case (if out4 \<noteq> [] then parseVRPs ParseCIDR out4 else ([], None)) of
             (vrps, Some err) \<Rightarrow> ([], Some err)
           | (vrps, None) \<Rightarrow>
               (let VRPs = VRPs @ vrps;
                    cmd6 = ''show route all table roa_v6 where net.asn='' @ formatUint (uint asn) in
                case query w b cmd6 of
                  (out6, Some err) \<Rightarrow> (VRPs, Some err)
                | (out6, None) \<Rightarrow>
                    (case (if out6 \<noteq> [] then parseVRPs ParseCIDR out6 else ([], None)) of
                       (vrps, Some err) \<Rightarrow> ([], Some err)
                     | (vrps, None) \<Rightarrow> (VRPs @ vrps, None)))))"

section \<open>Notions and example sessions for the properties\<close>

text \<open>
  A line that \<open>parseVRPs\<close> takes for a VRP and cannot read: its first field has
  exactly one hyphen, and the text before it is no CIDR prefix or the text after it no
  integer.
\<close>

definition malformedVRPLine :: "(string \<Rightarrow> error + 'n) \<Rightarrow> string \<Rightarrow> bool" where
  "malformedVRPLine ParseCIDR line =
     (case Fields line of
        [] \<Rightarrow> False
      | tok # toks \<Rightarrow>
          (case Split tok (CHR ''-'') of
             [p, m] \<Rightarrow> isl (ParseCIDR p) \<or> isl (Atoi m)
           | _ \<Rightarrow> False))"

text \<open>
  In the examples, a stand-in for \<open>net.ParseCIDR\<close> that knows two prefixes and
  rejects every other text.
\<close>

definition knownCIDR :: "string \<Rightarrow> error + string" where
  "knownCIDR s = (if s = ''192.0.2.0/24'' \<or> s = ''2001:db8::/32'' then Inr s else Inl (ParseError s))"

text \<open>The VRPs of AS64496: the IPv4 table answers well, the IPv6 table with a bad length.\<close>

definition vrpWorld :: world where
  "vrpWorld socketPath command =
     \<lparr>dial_err = None, send_err = None,
      incoming =
        (if command = ''show route all table roa_v4 where net.asn=64496''
         then ''0001 BIRD 2.0.8 ready.\<newline>1007-Table roa_v4:\<newline> 192.0.2.0/24-24 AS64496 [rpki1 2024-01-01] * (100)\<newline>0000 \<newline>''
         else ''0001 BIRD 2.0.8 ready.\<newline>1007-Table roa_v6:\<newline> 2001:db8::/32-4x AS64496 [rpki1 2024-01-01] * (100)\<newline>0000 \<newline>''),
      read_err = ''EOF''\<rparr>"

text \<open>
  A daemon that lists one invalid IPv4 route of AS64496, counts five valid IPv4
  routes, and answers every other command with the runtime error 8001.
\<close>

definition roaWorld :: world where
  "roaWorld socketPath command =
     \<lparr>dial_err = None, send_err = None,
      incoming =
        (if command = ''show route primary table master4 where roa_check(roa_v4) = ROA_INVALID''
         then ''0001 BIRD 2.0.8 ready.\<newline>1007-192.0.2.0/24 unicast via 10.0.0.1 [AS64496i]\<newline>0000 \<newline>''
         else if command = ''show route primary table master4 where roa_check(roa_v4) = ROA_VALID count''
         then ''0001 BIRD 2.0.8 ready.\<newline>0014 5 of 5 routes for 5 networks in table master4\<newline>''
         else ''0001 BIRD 2.0.8 ready.\<newline>8001 Table not found\<newline>''),
      read_err = ''EOF''\<rparr>"

text \<open>A daemon whose answer to the lookup of 192.0.2.1 has an AS path with an AS-SET.\<close>

definition asPathWorld :: world where
  "asPathWorld socketPath command =
     \<lparr>dial_err = None, send_err = None,
      incoming =
        (if command = ''show route primary all for 192.0.2.1''
         then ''0001 BIRD 2.0.8 ready.\<newline>1007-192.0.2.0/24 unicast [bgp1 2024-01-01] * (100) [AS9876i]\<newline> via 10.0.0.1 on eth0\<newline>1008-Type: BGP univ\<newline>1012-BGP.origin: IGP\<newline> BGP.as_path: 3356 12345 9876 {1212 3434}\<newline> BGP.next_hop: 10.0.0.1\<newline>0000 \<newline>''
         else ''0001 BIRD 2.0.8 ready.\<newline>8001 Network not found\<newline>''),
      read_err = ''EOF''\<rparr>"

text \<open>
  A token that is no \<open>uint32\<close> in decimal: empty, with a byte that is no digit, or
  writing a number above \<open>2^32 - 1\<close>.
\<close>

definition notUint32 :: "string \<Rightarrow> bool" where
  "notUint32 t = (t = [] \<or> \<not> list_all isDigit t \<or> decimal t > 4294967295)"

text \<open>No white-space rune starts at any byte of \<open>t\<close>.\<close>

definition spaceFree :: "string \<Rightarrow> bool" where
  "spaceFree t = (\<forall>i<length t. spaceWidth (drop i t) = 0)"

text \<open>A daemon that counts more IPv4 routes than a \<open>uint32\<close> holds.\<close>

definition overflowWorld :: world where
  "overflowWorld socketPath command =
     \<lparr>dial_err = None, send_err = None,
      incoming = ''0001 BIRD 2.0.8 ready.\<newline>1007-99999999999 of 99999999999 routes for 1038207 networks in table master4\<newline>0000 \<newline>'',
      read_err = ''EOF''\<rparr>"

section \<open>Properties of the session transport\<close>

lemma ReadString_line:
  "nl \<notin> set l \<Longrightarrow> ReadString (l @ nl # rest) = Some (l @ [nl], rest)"
proof -
  assume a: "nl \<notin> set l"
  then have n: "\<And>x. x \<in> set l \<Longrightarrow> x \<noteq> nl" by auto
  have t: "takeWhile (\<lambda>c. c \<noteq> nl) (l @ nl # rest) = l"
    using n by (simp add: takeWhile_append2)
  have d: "dropWhile (\<lambda>c. c \<noteq> nl) (l @ nl # rest) = nl # rest"
    using n by (simp add: dropWhile_append2)
  show ?thesis by (simp add: ReadString_def t d)
qed

lemma TrimRight_line: "nl \<notin> set l \<Longrightarrow> TrimRight (l @ [nl]) [nl] = l"
proof -
  assume a: "nl \<notin> set l"
  have "hd (rev l) \<noteq> nl" if "rev l \<noteq> []"
    using a that by (metis hd_in_set set_rev)
  then have "dropWhile (\<lambda>c. c \<in> set [nl]) (rev l) = rev l"
    by (cases "rev l") auto
  then show ?thesis by (simp add: TrimRight_def)
qed

lemma readResponse_line:
  "nl \<notin> set l \<Longrightarrow>
   readResponse eof out (l @ nl # rest) =
     (case processLine out l of
        Continue out' \<Rightarrow> readResponse eof out' rest
      | Break out' \<Rightarrow> (TrimSpace out', None)
      | Return e \<Rightarrow> ([], Some e))"
  by (subst readResponse.simps) (simp add: ReadString_line TrimRight_line)

lemma HasPrefix_append: "HasPrefix g p \<Longrightarrow> HasPrefix (g @ r) p"
proof -
  assume a: "HasPrefix g p"
  then have "length (take (length p) g) = length p" by (simp add: HasPrefix_def)
  then have "length p \<le> length g" by simp
  then show ?thesis using a by (simp add: HasPrefix_def)
qed

lemma querySocket_greeted:
  assumes "dial_err c = None" "send_err c = None" "nl \<notin> set greeting"
    "HasPrefix greeting ''0001''" "incoming c = greeting @ nl # resp"
  shows "querySocket c socketPath command = readResponse (read_err c) [] resp"
  using assms by (simp add: querySocket_def ReadString_line HasPrefix_append)

lemma ok_line: "processLine [] ''0000 ok'' = Break (''ok'' @ [nl])"
  by (simp add: processLine_def isDigit_def)

lemma trim_ok: "TrimSpace (''ok'' @ [nl]) = ''ok''"
  by code_simp

text \<open>
  C1, as amended. When the handshake succeeds and the line after the greeting is
  \<open>0000 ok\<close>, \<open>querySocket\<close> returns at once, whatever bytes follow, with no error;
  the payload is the text after the code and its separator, \<open>ok\<close>, as the branch for
  codes starting with \<open>0\<close> appends the rest of a line that has a space or hyphen at
  index 4.
\<close>

theorem querySocket_0000_ok:
  assumes "dial_err c = None" "send_err c = None" "nl \<notin> set greeting"
    "HasPrefix greeting ''0001''" "incoming c = greeting @ [nl] @ ''0000 ok'' @ [nl] @ rest"
  shows "querySocket c socketPath command = (''ok'', None)"
proof -
  have "querySocket c socketPath command = readResponse (read_err c) [] (''0000 ok'' @ nl # rest)"
    using assms by (intro querySocket_greeted[where greeting=greeting]) simp_all
  also have "\<dots> = (TrimSpace (''ok'' @ [nl]), None)"
    by (subst readResponse_line) (simp_all add: nl_def ok_line[unfolded nl_def])
  finally show ?thesis by (simp only: trim_ok)
qed

text \<open>The amended C1 at a session where more bytes follow the final line.\<close>

theorem querySocket_0000_ok_witness:
  "querySocket
     \<lparr>dial_err = None, send_err = None,
      incoming = ''0001 BIRD 2.0.8 ready.'' @ [nl] @ ''0000 ok'' @ [nl] @ ''1002-never read'',
      read_err = ''EOF''\<rparr>
     ''/run/bird.ctl'' ''show status'' = (''ok'', None)"
  by (rule querySocket_0000_ok [where greeting = "''0001 BIRD 2.0.8 ready.''"
        and rest = "''1002-never read''"])
     (simp_all add: nl_def HasPrefix_def)

text \<open>
  C1 as stated asks for an empty payload. On the session whose whole response is the
  line \<open>0000 ok\<close> the payload is \<open>ok\<close>.
\<close>

theorem querySocket_0000_ok_counterexample:
  "querySocket
     \<lparr>dial_err = None, send_err = None,
      incoming = ''0001 BIRD 2.0.8 ready.\<newline>0000 ok\<newline>'', read_err = ''EOF''\<rparr>
     ''/run/bird.ctl'' ''show status'' \<noteq> ([], None)"
  by code_simp

lemma readResponse_lines:
  "list_all (\<lambda>l. nl \<notin> set l) ls \<Longrightarrow> bufferedAfter out ls = Some out' \<Longrightarrow>
   readResponse eof out (wire ls @ rest) = readResponse eof out' rest"
proof (induction ls arbitrary: out)
  case Nil
  then show ?case by (simp add: wire_def)
next
  case (Cons l ls)
  from Cons.prems obtain o1 where p: "processLine out l = Continue o1"
    and b: "bufferedAfter o1 ls = Some out'"
    by (auto split: step.splits)
  have "readResponse eof out (wire (l # ls) @ rest) = readResponse eof out (l @ nl # (wire ls @ rest))"
    by (simp add: wire_def)
  also have "\<dots> = readResponse eof o1 (wire ls @ rest)"
    using Cons.prems(1) p by (simp add: readResponse_line)
  also have "\<dots> = readResponse eof out' rest"
    using Cons.IH[OF _ b] Cons.prems(1) by simp
  finally show ?case .
qed

lemma leading_space: "(length line > 0 \<and> line ! 0 = CHR '' '') = HasPrefix line '' ''"
  by (cases line) (auto simp: HasPrefix_def)

lemma processLine_error:
  assumes "length line \<ge> 4" "list_all isDigit (take 4 line)"
    "line ! 0 = CHR ''8'' \<or> line ! 0 = CHR ''9''"
  shows "processLine output line = Return (BIRDError line)"
  using assms by (auto simp: processLine_def Let_def)

lemma processLine_uncoded:
  assumes "\<not> HasPrefix line '' ''" "length line < 4 \<or> \<not> list_all isDigit (take 4 line)"
  shows "processLine output line = Continue (if line = [] then output else output @ line @ [nl])"
proof -
  have "\<not> (length line > 0 \<and> line ! 0 = CHR '' '')"
    using assms(1) by (simp only: leading_space not_False_eq_True)
  then show ?thesis
    using assms(2) by (auto simp: processLine_def Let_def)
qed

text \<open>
  C2. The handshake succeeds, the lines \<open>before\<close> keep the loop reading and leave
  \<open>output\<close> in the builder, and then comes a line whose first four bytes are digits,
  the first of them 8 or 9. Whatever follows, \<open>querySocket\<close> returns the empty
  payload, so that nothing of \<open>output\<close> is kept, and the error whose message ends
  with the line as it was received.
\<close>

theorem daemon_error_line:
  assumes "dial_err c = None" "send_err c = None"
    and "nl \<notin> set greeting" "HasPrefix greeting ''0001''"
    and "list_all (\<lambda>l. nl \<notin> set l) before" "bufferedAfter [] before = Some output"
    and "nl \<notin> set line" "length line \<ge> 4" "list_all isDigit (take 4 line)"
    and "line ! 0 = CHR ''8'' \<or> line ! 0 = CHR ''9''"
    and "incoming c = greeting @ [nl] @ wire before @ line @ [nl] @ rest"
  shows "querySocket c socketPath command = ([], Some (BIRDError line))
         \<and> Error (BIRDError line) = ''BIRD error: '' @ line"
proof -
  have "querySocket c socketPath command
        = readResponse (read_err c) [] (wire before @ (line @ nl # rest))"
    using assms by (intro querySocket_greeted[where greeting=greeting]) simp_all
  also have "\<dots> = readResponse (read_err c) output (line @ nl # rest)"
    using assms(5,6) by (rule readResponse_lines)
  also have "\<dots> = ([], Some (BIRDError line))"
    using assms(7-10) by (simp add: readResponse_line processLine_error)
  finally show ?thesis by simp
qed

text \<open>C2 at a session with two payload lines before the error line.\<close>

theorem daemon_error_line_witness:
  "querySocket
     \<lparr>dial_err = None, send_err = None,
      incoming = ''0001 BIRD 2.0.8 ready.\<newline>1002-first\<newline> second\<newline>8001 Route not found\<newline>0000 \<newline>'',
      read_err = ''EOF''\<rparr>
     ''/run/bird.ctl'' ''show route for 10.0.0.1''
   = ([], Some (BIRDError ''8001 Route not found''))
   \<and> Error (BIRDError ''8001 Route not found'') = ''BIRD error: 8001 Route not found''"
proof -
  have b: "bufferedAfter [] [''1002-first'', '' second''] = Some ''first\<newline>second\<newline>''"
    by code_simp
  show ?thesis
    using daemon_error_line [where greeting = "''0001 BIRD 2.0.8 ready.''"
        and before = "[''1002-first'', '' second'']" and line = "''8001 Route not found''"
        and rest = "''0000 \<newline>''", OF _ _ _ _ _ b]
    by (simp add: nl_def HasPrefix_def wire_def isDigit_def)
qed

text \<open>
  C3, as amended. An uncoded line with no leading space (shorter than four bytes, or
  with a byte that is no digit among its first four) is appended to the builder as
  it is, followed by a newline, and the loop reads on, when the line is not empty;
  for the empty line the loop reads on and the builder stays as it is.
\<close>

theorem uncoded_line:
  assumes "nl \<notin> set line" "\<not> HasPrefix line '' ''"
    and "length line < 4 \<or> \<not> list_all isDigit (take 4 line)"
  shows "readResponse eof output (line @ [nl] @ rest)
         = readResponse eof (if line = [] then output else output @ line @ [nl]) rest"
  using assms by (simp add: readResponse_line processLine_uncoded)

text \<open>The amended C3 at a route line starting with 8.8.8.0, read after one payload line.\<close>

theorem uncoded_line_witness:
  "readResponse ''EOF'' ''first\<newline>'' (''8.8.8.0/24 via 192.0.2.1'' @ [nl] @ ''0000 \<newline>'')
   = readResponse ''EOF'' (''first\<newline>'' @ ''8.8.8.0/24 via 192.0.2.1'' @ [nl]) ''0000 \<newline>''
   \<and> readResponse ''EOF'' ''first\<newline>'' (''8.8.8.0/24 via 192.0.2.1'' @ [nl] @ ''0000 \<newline>'')
     = (''first\<newline>8.8.8.0/24 via 192.0.2.1'', None)"
proof -
  have "readResponse ''EOF'' (''first\<newline>'' @ ''8.8.8.0/24 via 192.0.2.1'' @ [nl]) ''0000 \<newline>''
        = (''first\<newline>8.8.8.0/24 via 192.0.2.1'', None)"
    by code_simp
  then show ?thesis
    using uncoded_line [of "''8.8.8.0/24 via 192.0.2.1''" "''EOF''" "''first\<newline>''" "''0000 \<newline>''"]
    by (simp add: nl_def HasPrefix_def isDigit_def)
qed

text \<open>
  C3 as stated has the empty line appended too. The loop appends nothing for it: a
  blank line between \<open>a\<close> and \<open>b\<close> is missing from the payload.
\<close>

theorem uncoded_line_counterexample:
  "processLine ''a\<newline>'' [] \<noteq> Continue (''a\<newline>'' @ [] @ [nl])
   \<and> querySocket
      \<lparr>dial_err = None, send_err = None,
       incoming = ''0001 BIRD 2.0.8 ready.\<newline>a\<newline>\<newline>b\<newline>0000 \<newline>'', read_err = ''EOF''\<rparr>
      ''/run/bird.ctl'' ''show status'' = (''a\<newline>b'', None)"
  by code_simp

section \<open>Properties of the decoders\<close>

text \<open>
  C5. \<open>decodeASPaths\<close> on the three inputs of the repository's test: a path without
  a set, a set of one number, a set of two.
\<close>

theorem decodeASPaths_examples:
  "decodeASPaths ''3356 12345'' = ([3356, 12345], [])
   \<and> decodeASPaths ''3356 12345 9876 {1212}'' = ([3356, 12345, 9876], [1212])
   \<and> snd (decodeASPaths ''3356 12345 9876 {1212 3434}'') = [1212, 3434]"
  by code_simp

text \<open>
  C7. The exchange of \<open>show route count\<close> delivers the coded line for master4 and
  its analogue for master6, then the final line; \<open>GetBGPTotal\<close> returns the first
  number of each line as the RIB size and the third as the FIB size, under the family
  the line names. The second conjunct sends the master6 line as a continuation line.
\<close>

theorem GetBGPTotal_example:
  "GetBGPTotal
     (\<lambda>socketPath command.
        if command = ''show route count''
        then \<lparr>dial_err = None, send_err = None,
              incoming = ''0001 BIRD 2.0.8 ready.\<newline>1007-2076414 of 2076414 routes for 1038207 networks in table master4\<newline>1007-471160 of 471160 routes for 235580 networks in table master6\<newline>0014 Total: 2547574 of 2547574 routes for 1273787 networks in 2 tables\<newline>'',
              read_err = ''EOF''\<rparr>
        else \<lparr>dial_err = Some ''connection refused'', send_err = None, incoming = [],
              read_err = ''EOF''\<rparr>)
     \<lparr>SocketPath = ''/run/bird.ctl''\<rparr>
   = (\<lparr>V4Rib = 2076414, V4Fib = 1038207, V6Rib = 471160, V6Fib = 235580\<rparr>, None)
   \<and> GetBGPTotal
     (\<lambda>socketPath command.
        if command = ''show route count''
        then \<lparr>dial_err = None, send_err = None,
              incoming = ''0001 BIRD 2.0.8 ready.\<newline>1007-2076414 of 2076414 routes for 1038207 networks in table master4\<newline> 471160 of 471160 routes for 235580 networks in table master6\<newline>0000 \<newline>'',
              read_err = ''EOF''\<rparr>
        else \<lparr>dial_err = Some ''connection refused'', send_err = None, incoming = [],
              read_err = ''EOF''\<rparr>)
     \<lparr>SocketPath = ''/run/bird.ctl''\<rparr>
   = (\<lparr>V4Rib = 2076414, V4Fib = 1038207, V6Rib = 471160, V6Fib = 235580\<rparr>, None)"
  by code_simp

subsection \<open>Unique source ASNs\<close>

lemma setKey_set: "set (setKey ks k) = insert k (set ks)"
  by (auto simp: setKey_def)

lemma setKey_distinct: "distinct ks \<Longrightarrow> distinct (setKey ks k)"
  by (simp add: setKey_def)

lemma foldl_setKey_set: "set (foldl setKey ks xs) = set ks \<union> set xs"
  by (induction xs arbitrary: ks) (auto simp: setKey_set)

lemma foldl_setKey_distinct: "distinct ks \<Longrightarrow> distinct (foldl setKey ks xs)"
  by (induction xs arbitrary: ks) (auto simp: setKey_distinct)

lemma foldl_keys_distinct:
  "distinct ks \<Longrightarrow>
   distinct (foldl (\<lambda>asnMap line. if c line then setKey asnMap (k line) else asnMap) ks ls)"
  by (induction ls arbitrary: ks) (auto simp: setKey_distinct)

lemma rangeOrder_distinct:
  assumes "rangeOrder ord" "distinct ks"
  shows "distinct (ord ks)"
proof -
  have "card (set (ord ks)) = length (ord ks)"
    using assms by (simp add: rangeOrder_def distinct_card)
  then show ?thesis by (rule card_distinct)
qed

lemma rangeOrder_length: "rangeOrder ord \<Longrightarrow> length (ord ks) = length ks"
  by (simp add: rangeOrder_def)

lemma rangeOrder_set: "rangeOrder ord \<Longrightarrow> set (ord ks) = set ks"
  by (simp add: rangeOrder_def)

lemma extractSourceASNs_distinct: "rangeOrder ord \<Longrightarrow> distinct (extractSourceASNs ord output)"
  unfolding extractSourceASNs_def Let_def
  by (rule rangeOrder_distinct, assumption, rule foldl_keys_distinct) simp

lemma secondSet_iff:
  "foldl (\<lambda>m s. m(s := True)) m0 second = (\<lambda>x. m0 x \<or> x \<in> set second)"
  by (induction second arbitrary: m0) auto

lemma stringSliceDifference_eq:
  "stringSliceDifference first second = filter (\<lambda>s. s \<notin> set second) first"
  by (simp add: stringSliceDifference_def secondSet_iff)

lemma stringSliceIntersection_eq:
  "stringSliceIntersection first second = filter (\<lambda>s. s \<in> set second) first"
  by (simp add: stringSliceIntersection_def secondSet_iff)

lemma length_stringSliceToSet:
  "rangeOrder ord \<Longrightarrow> length (stringSliceToSet ord xs) = card (set xs)"
proof -
  assume r: "rangeOrder ord"
  have "length (stringSliceToSet ord xs) = length (foldl setKey [] xs)"
    using r by (simp add: stringSliceToSet_def rangeOrder_length)
  also have "\<dots> = card (set (foldl setKey [] xs))"
    by (simp add: distinct_card foldl_setKey_distinct)
  finally show ?thesis by (simp add: foldl_setKey_set)
qed

lemma length_filter_card:
  "distinct xs \<Longrightarrow> length (filter P xs) = card {x \<in> set xs. P x}"
  by (simp add: distinct_length_filter Int_def conj_commute)

lemma set_algebra_counts:
  assumes "distinct a" "distinct b"
  shows "length (filter (\<lambda>s. s \<notin> set b) a) + length (filter (\<lambda>s. s \<in> set b) a) = length a"
    and "length (filter (\<lambda>s. s \<notin> set a) b) + length (filter (\<lambda>s. s \<in> set b) a) = length b"
    and "card (set (a @ b)) = length (filter (\<lambda>s. s \<notin> set b) a)
           + length (filter (\<lambda>s. s \<notin> set a) b) + length (filter (\<lambda>s. s \<in> set b) a)"
proof -
  show 1: "length (filter (\<lambda>s. s \<notin> set b) a) + length (filter (\<lambda>s. s \<in> set b) a) = length a"
    using sum_length_filter_compl[of "\<lambda>s. s \<in> set b" a] by simp
  have sw: "length (filter (\<lambda>s. s \<in> set b) a) = length (filter (\<lambda>s. s \<in> set a) b)"
    using assms by (simp add: length_filter_card) (metis (no_types, lifting) Collect_cong)
  show 2: "length (filter (\<lambda>s. s \<notin> set a) b) + length (filter (\<lambda>s. s \<in> set b) a) = length b"
    using sum_length_filter_compl[of "\<lambda>s. s \<in> set a" b] sw by simp
  have "card (set a \<union> set b) = card (set a) + card (set b - set a)"
    by (metis List.finite_set Un_Diff_cancel card_Un_disjoint Diff_disjoint finite_Diff)
  moreover have "card (set b - set a) = length (filter (\<lambda>s. s \<notin> set a) b)"
    using assms(2) by (simp add: length_filter_card set_diff_eq)
  moreover have "card (set a) = length a" using assms(1) by (simp add: distinct_card)
  ultimately show "card (set (a @ b)) = length (filter (\<lambda>s. s \<notin> set b) a)
           + length (filter (\<lambda>s. s \<notin> set a) b) + length (filter (\<lambda>s. s \<in> set b) a)"
    using 1 by simp
qed

lemma len32_counts:
  assumes "distinct a" "distinct b" "rangeOrder ord"
  shows "len32 (stringSliceDifference a b) + len32 (stringSliceIntersection a b) = len32 a"
    and "len32 (stringSliceDifference b a) + len32 (stringSliceIntersection a b) = len32 b"
    and "len32 (stringSliceToSet ord (a @ b))
         = len32 (stringSliceDifference a b) + len32 (stringSliceDifference b a)
           + len32 (stringSliceIntersection a b)"
  unfolding len32_def stringSliceDifference_eq stringSliceIntersection_eq
    length_stringSliceToSet[OF assms(3)] of_nat_add[symmetric]
  by (simp_all only: set_algebra_counts[OF assms(1,2)])

text \<open>
  C4. Whatever the two route listings hold, and in whatever order the three maps are
  ranged over, the counts that \<open>GetTotalSourceASNs\<close> returns satisfy
  \<open>As4Only + AsBoth = As4\<close>, \<open>As6Only + AsBoth = As6\<close> and
  \<open>As10 = As4Only + As6Only + AsBoth\<close>, in the arithmetic of \<open>uint32\<close>. When a
  query fails the counts are all zero and the equations hold as well.
\<close>

theorem asn_set_algebra:
  assumes "rangeOrder ord4" "rangeOrder ord6" "rangeOrder ord10"
  shows "As4Only (fst (GetTotalSourceASNs ord4 ord6 ord10 w b))
           + AsBoth (fst (GetTotalSourceASNs ord4 ord6 ord10 w b))
         = As4 (fst (GetTotalSourceASNs ord4 ord6 ord10 w b))
       \<and> As6Only (fst (GetTotalSourceASNs ord4 ord6 ord10 w b))
           + AsBoth (fst (GetTotalSourceASNs ord4 ord6 ord10 w b))
         = As6 (fst (GetTotalSourceASNs ord4 ord6 ord10 w b))
       \<and> As10 (fst (GetTotalSourceASNs ord4 ord6 ord10 w b))
         = As4Only (fst (GetTotalSourceASNs ord4 ord6 ord10 w b))
           + As6Only (fst (GetTotalSourceASNs ord4 ord6 ord10 w b))
           + AsBoth (fst (GetTotalSourceASNs ord4 ord6 ord10 w b))"
proof -
  obtain out4 err4 where q4: "query w b ''show route primary table master4'' = (out4, err4)"
    by (cases "query w b ''show route primary table master4''")
  obtain out6 err6 where q6: "query w b ''show route primary table master6'' = (out6, err6)"
    by (cases "query w b ''show route primary table master6''")
  have d4: "distinct (extractSourceASNs ord4 out4)" and d6: "distinct (extractSourceASNs ord6 out6)"
    using assms by (simp_all add: extractSourceASNs_distinct)
  note c = len32_counts[OF d4 d6 assms(3)]
  show ?thesis
  proof (cases "err4 = None \<and> err6 = None")
    case True
    then show ?thesis
      by (simp add: GetTotalSourceASNs_def Let_def q4 q6 c(1) c(2) c(3)[symmetric])
  next
    case False
    then show ?thesis
      by (cases err4; cases err6) (simp_all add: GetTotalSourceASNs_def Let_def q4 q6)
  qed
qed

text \<open>
  C4 at two listings with one source ASN in both families, one in IPv4 only and two in
  IPv6 only.
\<close>

theorem asn_set_algebra_witness:
  "rangeOrder id \<and> rangeOrder rev \<and>
   GetTotalSourceASNs id rev id
     (\<lambda>socketPath command. \<lparr>dial_err = None, send_err = None,
        incoming = (if command = ''show route primary table master4''
          then ''0001 BIRD 2.0.8 ready.\<newline>1007-1.0.0.0/24 unicast [AS13335i]\<newline> 1.0.4.0/22 unicast [AS38803i]\<newline> 1.0.5.0/24 unicast [AS38803i]\<newline>0000 \<newline>''
          else ''0001 BIRD 2.0.8 ready.\<newline>1007-2001:db8::/32 unicast [AS13335i]\<newline> 2001:db8:1::/48 unicast [AS64496e]\<newline> 2001:db8:2::/48 unicast [AS64497]\<newline>0000 \<newline>''),
        read_err = ''EOF''\<rparr>)
     \<lparr>SocketPath = ''/run/bird.ctl''\<rparr>
   = (\<lparr>As4 = 2, As6 = 3, As10 = 4, As4Only = 1, As6Only = 2, AsBoth = 1\<rparr>, None)"
proof -
  have r: "rangeOrder id" "rangeOrder rev" by (simp_all add: rangeOrder_def)
  have e: "GetTotalSourceASNs id rev id
     (\<lambda>socketPath command. \<lparr>dial_err = None, send_err = None,
        incoming = (if command = ''show route primary table master4''
          then ''0001 BIRD 2.0.8 ready.\<newline>1007-1.0.0.0/24 unicast [AS13335i]\<newline> 1.0.4.0/22 unicast [AS38803i]\<newline> 1.0.5.0/24 unicast [AS38803i]\<newline>0000 \<newline>''
          else ''0001 BIRD 2.0.8 ready.\<newline>1007-2001:db8::/32 unicast [AS13335i]\<newline> 2001:db8:1::/48 unicast [AS64496e]\<newline> 2001:db8:2::/48 unicast [AS64497]\<newline>0000 \<newline>''),
        read_err = ''EOF''\<rparr>)
     \<lparr>SocketPath = ''/run/bird.ctl''\<rparr>
   = (\<lparr>As4 = 2, As6 = 3, As10 = 4, As4Only = 1, As6Only = 2, AsBoth = 1\<rparr>, None)"
    by code_simp
  show ?thesis
    using r e asn_set_algebra [OF r(1) r(2) r(1), of
      "\<lambda>socketPath command. \<lparr>dial_err = None, send_err = None,
        incoming = (if command = ''show route primary table master4''
          then ''0001 BIRD 2.0.8 ready.\<newline>1007-1.0.0.0/24 unicast [AS13335i]\<newline> 1.0.4.0/22 unicast [AS38803i]\<newline> 1.0.5.0/24 unicast [AS38803i]\<newline>0000 \<newline>''
          else ''0001 BIRD 2.0.8 ready.\<newline>1007-2001:db8::/32 unicast [AS13335i]\<newline> 2001:db8:1::/48 unicast [AS64496e]\<newline> 2001:db8:2::/48 unicast [AS64497]\<newline>0000 \<newline>''),
        read_err = ''EOF''\<rparr>" "\<lparr>SocketPath = ''/run/bird.ctl''\<rparr>"]
    by simp
qed

subsection \<open>Validated ROA payloads\<close>

lemma Split_absent: "c \<notin> set s \<Longrightarrow> Split s c = [s]"
  by (induction s) auto

lemma Contains_char: "c \<in> set s \<Longrightarrow> Contains s [c]"
  by (induction s) (auto simp: HasPrefix_def)

lemma Split_two_Contains: "Split s c = [p, m] \<Longrightarrow> Contains s [c]"
  by (rule Contains_char, rule ccontr) (simp add: Split_absent)

lemma Fields_Nil: "Fields [] = []"
  by (simp add: Fields_def fieldsFrom.simps)

lemma malformedVRPLine_Nil: "\<not> malformedVRPLine P []"
  by (simp add: malformedVRPLine_def Fields_Nil)

lemma malformed_output_nonempty:
  "list_ex (malformedVRPLine P) (Split output nl) \<Longrightarrow> output \<noteq> []"
  by (auto simp: malformedVRPLine_Nil)

lemma parseVRPsLoop_step:
  "(\<exists>e. parseVRPsLoop P vrps (l # ls) = ([], Some e))
   \<or> (\<not> malformedVRPLine P l \<and> (\<exists>vrps'. parseVRPsLoop P vrps (l # ls) = parseVRPsLoop P vrps' ls))"
proof (cases "Fields l")
  case Nil
  then have "\<not> malformedVRPLine P l" "parseVRPsLoop P vrps (l # ls) = parseVRPsLoop P vrps ls"
    by (simp_all add: malformedVRPLine_def)
  then show ?thesis by blast
next
  case (Cons tok toks)
  show ?thesis
  proof (cases "\<exists>p m. Split tok (CHR ''-'') = [p, m]")
    case True
    then obtain p m where s: "Split tok (CHR ''-'') = [p, m]" by blast
    then have c: "Contains tok ''-''" by (rule Split_two_Contains)
    show ?thesis
      using Cons s c by (auto simp: malformedVRPLine_def Let_def split: sum.splits)
  next
    case False
    then have n: "length (Split tok (CHR ''-'')) \<noteq> 2"
      by (metis One_nat_def Suc_1 length_0_conv length_Suc_conv)
    have m: "\<not> malformedVRPLine P l"
      using Cons False by (auto simp: malformedVRPLine_def split: list.splits)
    show ?thesis using Cons n m by (auto simp: Let_def)
  qed
qed

lemma parseVRPsLoop_malformed:
  "list_ex (malformedVRPLine P) ls \<Longrightarrow> \<exists>e. parseVRPsLoop P vrps ls = ([], Some e)"
proof (induction ls arbitrary: vrps)
  case Nil
  then show ?case by simp
next
  case (Cons l ls)
  from parseVRPsLoop_step[of P vrps l ls] show ?case
  proof
    assume "\<exists>e. parseVRPsLoop P vrps (l # ls) = ([], Some e)"
    then show ?thesis .
  next
    assume a: "\<not> malformedVRPLine P l
               \<and> (\<exists>vrps'. parseVRPsLoop P vrps (l # ls) = parseVRPsLoop P vrps' ls)"
    then obtain vrps' where v: "parseVRPsLoop P vrps (l # ls) = parseVRPsLoop P vrps' ls"
      by blast
    from a Cons.prems have "list_ex (malformedVRPLine P) ls" by simp
    from Cons.IH[OF this] v show ?thesis by simp
  qed
qed

lemma parseVRPs_malformed:
  "list_ex (malformedVRPLine P) (Split output nl) \<Longrightarrow> \<exists>e. parseVRPs P output = ([], Some e)"
  unfolding parseVRPs_def by (rule parseVRPsLoop_malformed)

lemma parseVRPs_result:
  "(\<exists>e. parseVRPs P output = ([], Some e)) \<or> (\<exists>vrps. parseVRPs P output = (vrps, None))"
proof -
  have "\<And>vrps. (\<exists>e. parseVRPsLoop P vrps ls = ([], Some e))
              \<or> (\<exists>vrps'. parseVRPsLoop P vrps ls = (vrps', None))" for ls
  proof (induction ls)
    case Nil
    then show ?case by simp
  next
    case (Cons l ls)
    from parseVRPsLoop_step[of P vrps l ls] Cons.IH show ?case by metis
  qed
  then show ?thesis by (simp add: parseVRPs_def)
qed

text \<open>
  C8, as amended. A line whose first field has exactly one hyphen is split there into
  a prefix and a maximum length, and the VRP is appended when both parse (last
  conjunct). If any such line of the output has a prefix that fails CIDR parsing or a
  length that fails to parse, \<open>parseVRPs\<close> returns an error and no VRP; so does
  \<open>GetVRPs\<close> when the line is in the IPv4 output, and when both queries succeed and
  the line is in the IPv6 output, the VRPs of the IPv4 output being dropped.
\<close>

theorem vrp_parse_error:
  "(list_ex (malformedVRPLine P) (Split output nl) \<longrightarrow> (\<exists>e. parseVRPs P output = ([], Some e)))
   \<and> (query w b (''show route all table roa_v4 where net.asn='' @ formatUint (uint asn)) = (out4, None)
        \<and> list_ex (malformedVRPLine P) (Split out4 nl)
      \<longrightarrow> (\<exists>e. GetVRPs P w b asn = ([], Some e)))
   \<and> (query w b (''show route all table roa_v4 where net.asn='' @ formatUint (uint asn)) = (out4, None)
        \<and> query w b (''show route all table roa_v6 where net.asn='' @ formatUint (uint asn)) = (out6, None)
        \<and> list_ex (malformedVRPLine P) (Split out6 nl)
      \<longrightarrow> (\<exists>e. GetVRPs P w b asn = ([], Some e)))
   \<and> (Fields line = tok # toks \<and> Split tok (CHR ''-'') = [p, m]
        \<and> P p = Inr net \<and> Atoi m = Inr k
      \<longrightarrow> parseVRPsLoop P vrps (line # lines)
          = parseVRPsLoop P (vrps @ [\<lparr>Prefix = net, Max = k\<rparr>]) lines)"
proof (intro conjI impI)
  assume "list_ex (malformedVRPLine P) (Split output nl)"
  then show "\<exists>e. parseVRPs P output = ([], Some e)" by (rule parseVRPs_malformed)
next
  assume a: "query w b (''show route all table roa_v4 where net.asn='' @ formatUint (uint asn)) = (out4, None)
        \<and> list_ex (malformedVRPLine P) (Split out4 nl)"
  then have ne: "out4 \<noteq> []" using malformed_output_nonempty by blast
  from a obtain e where "parseVRPs P out4 = ([], Some e)" using parseVRPs_malformed by blast
  then show "\<exists>e. GetVRPs P w b asn = ([], Some e)"
    using a ne by (simp add: GetVRPs_def Let_def)
next
  assume a: "query w b (''show route all table roa_v4 where net.asn='' @ formatUint (uint asn)) = (out4, None)
        \<and> query w b (''show route all table roa_v6 where net.asn='' @ formatUint (uint asn)) = (out6, None)
        \<and> list_ex (malformedVRPLine P) (Split out6 nl)"
  then have ne: "out6 \<noteq> []" using malformed_output_nonempty by blast
  from a obtain e where e: "parseVRPs P out6 = ([], Some e)" using parseVRPs_malformed by blast
  have "(\<exists>e. (if out4 \<noteq> [] then parseVRPs P out4 else ([], None)) = ([], Some e))
        \<or> (\<exists>vrps. (if out4 \<noteq> [] then parseVRPs P out4 else ([], None)) = (vrps, None))"
    using parseVRPs_result[of P out4] by auto
  then show "\<exists>e. GetVRPs P w b asn = ([], Some e)"
  proof
    assume "\<exists>e. (if out4 \<noteq> [] then parseVRPs P out4 else ([], None)) = ([], Some e)"
    then obtain e4 where "(if out4 \<noteq> [] then parseVRPs P out4 else ([], None)) = ([], Some e4)"
      by blast
    then show ?thesis using a by (simp add: GetVRPs_def Let_def del: formatUint.simps)
  next
    assume "\<exists>vrps. (if out4 \<noteq> [] then parseVRPs P out4 else ([], None)) = (vrps, None)"
    then obtain vrps4 where "(if out4 \<noteq> [] then parseVRPs P out4 else ([], None)) = (vrps4, None)"
      by blast
    then show ?thesis using a e ne by (simp add: GetVRPs_def Let_def del: formatUint.simps)
  qed
next
  assume a: "Fields line = tok # toks \<and> Split tok (CHR ''-'') = [p, m]
        \<and> P p = Inr net \<and> Atoi m = Inr k"
  then have "Contains tok ''-''" using Split_two_Contains by blast
  then show "parseVRPsLoop P vrps (line # lines)
          = parseVRPsLoop P (vrps @ [\<lparr>Prefix = net, Max = k\<rparr>]) lines"
    using a by (simp add: Let_def)
qed

text \<open>
  The amended C8 for AS64496: the IPv4 line is a VRP, the IPv6 line has the length
  \<open>4x\<close>, and the call returns the error of \<open>strconv.Atoi\<close> with no VRP.
\<close>

theorem vrp_parse_error_witness:
  "GetVRPs knownCIDR vrpWorld \<lparr>SocketPath = ''/run/bird.ctl''\<rparr> 64496
   = ([], Some (NumError ''Atoi'' ''4x'' ErrSyntax))
   \<and> parseVRPs knownCIDR ''Table roa_v4:\<newline>192.0.2.0/24-24 AS64496 [rpki1 2024-01-01] * (100)''
     = ([\<lparr>Prefix = ''192.0.2.0/24'', Max = 24\<rparr>], None)"
proof -
  have q4: "query vrpWorld \<lparr>SocketPath = ''/run/bird.ctl''\<rparr>
              (''show route all table roa_v4 where net.asn='' @ formatUint (uint (64496 :: uint32)))
            = (''Table roa_v4:\<newline>192.0.2.0/24-24 AS64496 [rpki1 2024-01-01] * (100)'', None)"
    by code_simp
  have q6: "query vrpWorld \<lparr>SocketPath = ''/run/bird.ctl''\<rparr>
              (''show route all table roa_v6 where net.asn='' @ formatUint (uint (64496 :: uint32)))
            = (''Table roa_v6:\<newline>2001:db8::/32-4x AS64496 [rpki1 2024-01-01] * (100)'', None)"
    by code_simp
  have m: "list_ex (malformedVRPLine knownCIDR)
             (Split ''Table roa_v6:\<newline>2001:db8::/32-4x AS64496 [rpki1 2024-01-01] * (100)'' nl)"
    by code_simp
  have r: "GetVRPs knownCIDR vrpWorld \<lparr>SocketPath = ''/run/bird.ctl''\<rparr> 64496
           = ([], Some (NumError ''Atoi'' ''4x'' ErrSyntax))"
    by code_simp
  have p: "parseVRPs knownCIDR ''Table roa_v4:\<newline>192.0.2.0/24-24 AS64496 [rpki1 2024-01-01] * (100)''
     = ([\<lparr>Prefix = ''192.0.2.0/24'', Max = 24\<rparr>], None)"
    by code_simp
  from vrp_parse_error [where P = knownCIDR and w = vrpWorld
      and b = "\<lparr>SocketPath = ''/run/bird.ctl''\<rparr>" and asn = 64496
      and ?out4.0 = "''Table roa_v4:\<newline>192.0.2.0/24-24 AS64496 [rpki1 2024-01-01] * (100)''"
      and ?out6.0 = "''Table roa_v6:\<newline>2001:db8::/32-4x AS64496 [rpki1 2024-01-01] * (100)''"]
    q4 q6 m r p
  show ?thesis by simp
qed

text \<open>
  C8 as stated covers every first field that contains a hyphen. A first field with two
  hyphens is skipped without an error, although neither way of splitting it gives a
  prefix and an integer that parse.
\<close>

theorem vrp_parse_error_counterexample:
  "Fields ''192.0.2.0/24-24-32 AS64496'' ! 0 = ''192.0.2.0/24-24-32''
   \<and> Contains ''192.0.2.0/24-24-32'' ''-''
   \<and> isl (Atoi ''24-32'') \<and> isl (knownCIDR ''192.0.2.0/24-24'')
   \<and> parseVRPs knownCIDR ''192.0.2.0/24-24-32 AS64496'' = ([], None)"
  by code_simp

subsection \<open>Decoders of several queries\<close>

text \<open>
  C9, as amended. When a query of \<open>GetInvalids\<close> or \<open>GetROAs\<close> returns an error,
  the call ends there with that error. The value beside the error is the one built so
  far: for \<open>GetInvalids\<close> the empty map when the IPv4 query fails and the map of the
  IPv4 output when the IPv6 query fails; for \<open>GetROAs\<close> the counts of the queries
  that succeeded, the others zero.
\<close>

theorem multi_query_abort:
  "(query w b (roaInvalid ''master4'' ''roa_v4'') = (out4, Some err)
      \<longrightarrow> GetInvalids w b = (Map.empty, Some err))
   \<and> (query w b (roaInvalid ''master4'' ''roa_v4'') = (out4, None)
        \<and> query w b (roaInvalid ''master6'' ''roa_v6'') = (out6, Some err)
      \<longrightarrow> GetInvalids w b = (foldl addInvalid Map.empty (Split out4 nl), Some err))
   \<and> (query w b (roaCount ''master4'' ''roa_v4'' ''ROA_VALID'') = (v4Valid, Some err)
      \<longrightarrow> GetROAs w b = (\<lparr>V4v = 0, V4i = 0, V4u = 0, V6v = 0, V6i = 0, V6u = 0\<rparr>, Some err))
   \<and> (query w b (roaCount ''master4'' ''roa_v4'' ''ROA_VALID'') = (v4Valid, None)
        \<and> query w b (roaCount ''master4'' ''roa_v4'' ''ROA_INVALID'') = (v4Invalid, Some err)
      \<longrightarrow> GetROAs w b
          = (\<lparr>V4v = extractRouteCount v4Valid, V4i = 0, V4u = 0, V6v = 0, V6i = 0, V6u = 0\<rparr>,
             Some err))
   \<and> (query w b (roaCount ''master4'' ''roa_v4'' ''ROA_VALID'') = (v4Valid, None)
        \<and> query w b (roaCount ''master4'' ''roa_v4'' ''ROA_INVALID'') = (v4Invalid, None)
        \<and> query w b (roaCount ''master4'' ''roa_v4'' ''ROA_UNKNOWN'') = (v4Unknown, Some err)
      \<longrightarrow> GetROAs w b
          = (\<lparr>V4v = extractRouteCount v4Valid, V4i = extractRouteCount v4Invalid, V4u = 0,
               V6v = 0, V6i = 0, V6u = 0\<rparr>, Some err))
   \<and> (query w b (roaCount ''master4'' ''roa_v4'' ''ROA_VALID'') = (v4Valid, None)
        \<and> query w b (roaCount ''master4'' ''roa_v4'' ''ROA_INVALID'') = (v4Invalid, None)
        \<and> query w b (roaCount ''master4'' ''roa_v4'' ''ROA_UNKNOWN'') = (v4Unknown, None)
        \<and> query w b (roaCount ''master6'' ''roa_v6'' ''ROA_VALID'') = (v6Valid, Some err)
      \<longrightarrow> GetROAs w b
          = (\<lparr>V4v = extractRouteCount v4Valid, V4i = extractRouteCount v4Invalid,
               V4u = extractRouteCount v4Unknown, V6v = 0, V6i = 0, V6u = 0\<rparr>, Some err))
   \<and> (query w b (roaCount ''master4'' ''roa_v4'' ''ROA_VALID'') = (v4Valid, None)
        \<and> query w b (roaCount ''master4'' ''roa_v4'' ''ROA_INVALID'') = (v4Invalid, None)
        \<and> query w b (roaCount ''master4'' ''roa_v4'' ''ROA_UNKNOWN'') = (v4Unknown, None)
        \<and> query w b (roaCount ''master6'' ''roa_v6'' ''ROA_VALID'') = (v6Valid, None)
        \<and> query w b (roaCount ''master6'' ''roa_v6'' ''ROA_INVALID'') = (v6Invalid, Some err)
      \<longrightarrow> GetROAs w b
          = (\<lparr>V4v = extractRouteCount v4Valid, V4i = extractRouteCount v4Invalid,
               V4u = extractRouteCount v4Unknown, V6v = extractRouteCount v6Valid,
               V6i = 0, V6u = 0\<rparr>, Some err))
   \<and> (query w b (roaCount ''master4'' ''roa_v4'' ''ROA_VALID'') = (v4Valid, None)
        \<and> query w b (roaCount ''master4'' ''roa_v4'' ''ROA_INVALID'') = (v4Invalid, None)
        \<and> query w b (roaCount ''master4'' ''roa_v4'' ''ROA_UNKNOWN'') = (v4Unknown, None)
        \<and> query w b (roaCount ''master6'' ''roa_v6'' ''ROA_VALID'') = (v6Valid, None)
        \<and> query w b (roaCount ''master6'' ''roa_v6'' ''ROA_INVALID'') = (v6Invalid, None)
        \<and> query w b (roaCount ''master6'' ''roa_v6'' ''ROA_UNKNOWN'') = (v6Unknown, Some err)
      \<longrightarrow> GetROAs w b
          = (\<lparr>V4v = extractRouteCount v4Valid, V4i = extractRouteCount v4Invalid,
               V4u = extractRouteCount v4Unknown, V6v = extractRouteCount v6Valid,
               V6i = extractRouteCount v6Invalid, V6u = 0\<rparr>, Some err))"
  by (simp add: GetInvalids_def GetROAs_def Let_def)

text \<open>
  The amended C9 on the daemon of \<open>roaWorld\<close>: the IPv6 query of \<open>GetInvalids\<close>
  and the second query of \<open>GetROAs\<close> meet the error 8001.
\<close>

theorem multi_query_abort_witness:
  "GetInvalids roaWorld \<lparr>SocketPath = ''/run/bird.ctl''\<rparr>
   = (foldl addInvalid Map.empty (Split ''192.0.2.0/24 unicast via 10.0.0.1 [AS64496i]'' nl),
      Some (BIRDError ''8001 Table not found''))
   \<and> GetROAs roaWorld \<lparr>SocketPath = ''/run/bird.ctl''\<rparr>
     = (\<lparr>V4v = extractRouteCount ''5 of 5 routes for 5 networks in table master4'',
         V4i = 0, V4u = 0, V6v = 0, V6i = 0, V6u = 0\<rparr>,
        Some (BIRDError ''8001 Table not found''))"
proof -
  have q1: "query roaWorld \<lparr>SocketPath = ''/run/bird.ctl''\<rparr> (roaInvalid ''master4'' ''roa_v4'')
            = (''192.0.2.0/24 unicast via 10.0.0.1 [AS64496i]'', None)"
    by code_simp
  have q2: "query roaWorld \<lparr>SocketPath = ''/run/bird.ctl''\<rparr> (roaInvalid ''master6'' ''roa_v6'')
            = ([], Some (BIRDError ''8001 Table not found''))"
    by code_simp
  have q3: "query roaWorld \<lparr>SocketPath = ''/run/bird.ctl''\<rparr>
              (roaCount ''master4'' ''roa_v4'' ''ROA_VALID'')
            = (''5 of 5 routes for 5 networks in table master4'', None)"
    by code_simp
  have q4: "query roaWorld \<lparr>SocketPath = ''/run/bird.ctl''\<rparr>
              (roaCount ''master4'' ''roa_v4'' ''ROA_INVALID'')
            = ([], Some (BIRDError ''8001 Table not found''))"
    by code_simp
  show ?thesis
    using multi_query_abort [where w = roaWorld and b = "\<lparr>SocketPath = ''/run/bird.ctl''\<rparr>"
        and ?out4.0 = "''192.0.2.0/24 unicast via 10.0.0.1 [AS64496i]''" and ?out6.0 = "[]"
        and err = "BIRDError ''8001 Table not found''"
        and v4Valid = "''5 of 5 routes for 5 networks in table master4''" and v4Invalid = "[]"]
      q1 q2 q3 q4
    by simp
qed

text \<open>
  C9 as stated has nothing of the earlier queries in the returned value. Beside the
  error, \<open>GetInvalids\<close> returns the map with the IPv4 prefix of AS64496, and
  \<open>GetROAs\<close> the count 5 of valid IPv4 routes.
\<close>

theorem multi_query_abort_counterexample:
  "snd (GetInvalids roaWorld \<lparr>SocketPath = ''/run/bird.ctl''\<rparr>)
     = Some (BIRDError ''8001 Table not found'')
   \<and> fst (GetInvalids roaWorld \<lparr>SocketPath = ''/run/bird.ctl''\<rparr>) ''64496''
     = Some [''192.0.2.0/24'']
   \<and> GetROAs roaWorld \<lparr>SocketPath = ''/run/bird.ctl''\<rparr>
     = (\<lparr>V4v = 5, V4i = 0, V4u = 0, V6v = 0, V6i = 0, V6u = 0\<rparr>,
        Some (BIRDError ''8001 Table not found''))"
  by code_simp

subsection \<open>AS paths\<close>

lemma fieldsFrom_chars:
  "t \<in> set (fieldsFrom cur s) \<Longrightarrow> set t \<subseteq> set cur \<union> set s"
proof (induction cur s rule: fieldsFrom.induct)
  case (1 cur s)
  show ?case
  proof (cases "s = []")
    case True
    then show ?thesis using "1.prems" by (auto simp: fieldsFrom.simps[of cur "[]"] split: if_splits)
  next
    case ne: False
    show ?thesis
    proof (cases "spaceWidth s = 0")
      case True
      then have "t \<in> set (fieldsFrom (cur @ [hd s]) (tl s))"
        using "1.prems" ne by (simp add: fieldsFrom.simps[of cur s])
      from "1.IH"(1)[OF ne True this] show ?thesis
        using ne by (cases s) auto
    next
      case False
      then have "t = cur \<or> t \<in> set (fieldsFrom [] (drop (spaceWidth s) s))"
        using "1.prems" ne by (auto simp: fieldsFrom.simps[of cur s] split: if_splits)
      then show ?thesis
      proof
        assume "t = cur" then show ?thesis by auto
      next
        assume "t \<in> set (fieldsFrom [] (drop (spaceWidth s) s))"
        from "1.IH"(2)[OF ne False this] show ?thesis
          using set_drop_subset[of "spaceWidth s" s] by auto
      qed
    qed
  qed
qed

lemma ContainsAny_iff: "ContainsAny s chars = (set s \<inter> set chars \<noteq> {})"
  by (auto simp: ContainsAny_def list_ex_iff)

lemma Fields_clean:
  "\<not> ContainsAny s chars \<Longrightarrow> list_all (\<lambda>t. \<not> ContainsAny t chars) (Fields s)"
  unfolding list_all_iff ContainsAny_iff Fields_def
  using fieldsFrom_chars by fastforce

lemma decodeLoop_clean:
  "list_all (\<lambda>t. \<not> ContainsAny t ''{}'') ts \<Longrightarrow>
   decodeLoop (ts @ rest) isSet path aset =
     (if isSet then decodeLoop rest True path (aset @ map stringToUint32 ts)
      else decodeLoop rest False (path @ map stringToUint32 ts) aset)"
  by (induction ts arbitrary: path aset) auto

lemma Replace1_first: "c \<notin> set pre \<Longrightarrow> Replace1 (pre @ c # r) c new = pre @ new @ r"
  by (induction pre) auto

lemma spaceWidth_ascii_space: "spaceWidth (c # b) = 1" if "isAsciiSpace c"
proof (cases b)
  case Nil
  then show ?thesis using that by simp
next
  case (Cons d b')
  then show ?thesis using that by (cases b') simp_all
qed


lemma spaceWidth_before_ascii:
  assumes "a \<noteq> []" "(of_char c :: nat) < 128"
  shows "spaceWidth (a @ c # b) = spaceWidth a"
proof -
  have n2: "\<And>x. \<not> isSpace2 x c" using assms(2) by (auto simp: isSpace2_def)
  have n3: "\<And>x y. \<not> isSpace3 x c y" "\<And>x y. \<not> isSpace3 x y c"
    using assms(2) by (auto simp: isSpace3_def)
  show ?thesis
  proof (cases a)
    case Nil
    then show ?thesis using assms(1) by simp
  next
    case a1: (Cons x xs)
    show ?thesis
    proof (cases xs)
      case Nil
      then show ?thesis using a1 n2 n3 by (cases b) simp_all
    next
      case a2: (Cons y ys)
      show ?thesis
      proof (cases ys)
        case Nil
        then show ?thesis using a1 a2 n3 by simp
      next
        case (Cons z zs)
        then show ?thesis using a1 a2 by simp
      qed
    qed
  qed
qed

lemma ascii_space_small: "isAsciiSpace c \<Longrightarrow> (of_char c :: nat) < 128"
  by (auto simp: isAsciiSpace_def)

lemma fieldsFrom_append_space:
  "isAsciiSpace c \<Longrightarrow> fieldsFrom cur (a @ c # b) = fieldsFrom cur a @ fieldsFrom [] b"
proof (induction cur a rule: fieldsFrom.induct)
  case (1 cur a)
  note sp = "1.prems"
  show ?case
  proof (cases "a = []")
    case True
    then show ?thesis
      using sp by (simp add: fieldsFrom.simps[of cur "c # b"] fieldsFrom.simps[of cur "[]"]
          spaceWidth_ascii_space)
  next
    case ne: False
    have w: "spaceWidth (a @ c # b) = spaceWidth a"
      using ne sp by (simp add: spaceWidth_before_ascii ascii_space_small)
    show ?thesis
    proof (cases "spaceWidth a = 0")
      case True
      have "fieldsFrom cur (a @ c # b) = fieldsFrom (cur @ [hd a]) (tl a @ c # b)"
        using ne True w by (subst fieldsFrom.simps) simp
      also have "\<dots> = fieldsFrom (cur @ [hd a]) (tl a) @ fieldsFrom [] b"
        using "1.IH"(1)[OF ne True sp] .
      also have "fieldsFrom (cur @ [hd a]) (tl a) = fieldsFrom cur a"
        using ne True by (subst (2) fieldsFrom.simps) simp
      finally show ?thesis .
    next
      case False
      have le: "spaceWidth a \<le> length a" by (rule spaceWidth_le)
      have "fieldsFrom cur (a @ c # b)
            = (if cur = [] then [] else [cur]) @ fieldsFrom [] (drop (spaceWidth a) a @ c # b)"
        using ne False w le by (subst fieldsFrom.simps) simp
      also have "fieldsFrom [] (drop (spaceWidth a) a @ c # b)
                 = fieldsFrom [] (drop (spaceWidth a) a) @ fieldsFrom [] b"
        using "1.IH"(2)[OF ne False sp] .
      also have "(if cur = [] then [] else [cur]) @ fieldsFrom [] (drop (spaceWidth a) a) @ fieldsFrom [] b
                 = fieldsFrom cur a @ fieldsFrom [] b"
        using ne False by (subst (3) fieldsFrom.simps) simp
      finally show ?thesis .
    qed
  qed
qed

lemma Fields_append_space:
  "isAsciiSpace c \<Longrightarrow> Fields (a @ c # b) = Fields a @ Fields b"
  by (simp add: Fields_def fieldsFrom_append_space)

lemma Fields_open: "Fields ''{'' = [''{'']"
  by code_simp

lemma Fields_close: "Fields ''}'' = [''}'']"
  by code_simp

lemma Fields_block:
  assumes "pre = [] \<or> isAsciiSpace (last pre)"
  shows "Fields (pre @ ''{ '' @ inner @ '' }'') = Fields pre @ [''{''] @ Fields inner @ [''}'']"
proof -
  have sp: "isAsciiSpace (CHR '' '')" by (simp add: isAsciiSpace_def)
  have blk: "Fields (''{ '' @ inner @ '' }'') = [''{''] @ Fields inner @ [''}'']"
  proof -
    have "Fields (''{ '' @ inner @ '' }'') = Fields ''{'' @ Fields (inner @ CHR '' '' # ''}'')"
      using Fields_append_space[OF sp, of "''{''" "inner @ '' }''"] by simp
    also have "Fields (inner @ CHR '' '' # ''}'') = Fields inner @ Fields ''}''"
      by (rule Fields_append_space[OF sp])
    finally show ?thesis by (simp add: Fields_open Fields_close)
  qed
  from assms show ?thesis
  proof
    assume "pre = []"
    then show ?thesis using blk by (simp add: Fields_Nil)
  next
    assume l: "isAsciiSpace (last pre)"
    show ?thesis
    proof (cases "pre = []")
      case True
      then show ?thesis using blk by (simp add: Fields_Nil)
    next
      case False
      then have p: "pre = butlast pre @ [last pre]" by simp
      have "Fields (pre @ ''{ '' @ inner @ '' }'')
            = Fields (butlast pre @ last pre # (''{ '' @ inner @ '' }''))"
        by (subst p) simp
      also have "\<dots> = Fields (butlast pre) @ Fields (''{ '' @ inner @ '' }'')"
        by (rule Fields_append_space[OF l])
      also have "Fields (butlast pre) = Fields pre"
        using Fields_append_space[OF l, of "butlast pre" "[]"] p by (simp add: Fields_Nil)
      finally show ?thesis using blk by simp
    qed
  qed
qed

text \<open>
  C6, as amended. The set that \<open>decodeASPaths\<close> returns is empty whenever the text
  has no brace, the path then holding the numbers of all its fields. When the text
  ends with one block in braces, has no other brace, and the block starts the text or
  follows an ASCII white-space byte, the set holds the numbers of the fields inside the
  block and the path those of the fields before it.
\<close>

theorem as_set_block:
  "(\<not> ContainsAny s ''{}'' \<longrightarrow> decodeASPaths s = (map stringToUint32 (Fields s), []))
   \<and> (\<not> ContainsAny pre ''{}'' \<and> \<not> ContainsAny inner ''{}''
        \<and> (pre = [] \<or> isAsciiSpace (last pre))
      \<longrightarrow> decodeASPaths (pre @ ''{'' @ inner @ ''}'')
          = (map stringToUint32 (Fields pre), map stringToUint32 (Fields inner)))"
proof (intro conjI impI)
  assume a: "\<not> ContainsAny s ''{}''"
  from decodeLoop_clean[OF Fields_clean[OF a], of "[]" False "[]" "[]"]
  show "decodeASPaths s = (map stringToUint32 (Fields s), [])"
    using a by (simp add: decodeASPaths_def)
next
  assume a: "\<not> ContainsAny pre ''{}'' \<and> \<not> ContainsAny inner ''{}''
        \<and> (pre = [] \<or> isAsciiSpace (last pre))"
  then have np: "CHR ''{'' \<notin> set pre" "CHR ''}'' \<notin> set pre"
    and ni: "CHR ''}'' \<notin> set inner"
    by (auto simp: ContainsAny_iff)
  have c: "ContainsAny (pre @ ''{'' @ inner @ ''}'') ''{}''"
    by (simp add: ContainsAny_iff)
  have r1: "Replace1 (pre @ ''{'' @ inner @ ''}'') (CHR ''{'') ''{ '' = pre @ ''{ '' @ inner @ ''}''"
    using Replace1_first[OF np(1), of "inner @ ''}''" "''{ ''"] by simp
  have r2: "Replace1 (pre @ ''{ '' @ inner @ ''}'') (CHR ''}'') '' }'' = pre @ ''{ '' @ inner @ '' }''"
  proof -
    have "CHR ''}'' \<notin> set (pre @ ''{ '' @ inner)" using np(2) ni by simp
    from Replace1_first[OF this, of "[]" "'' }''"] show ?thesis by simp
  qed
  have f: "Fields (pre @ ''{ '' @ inner @ '' }'') = Fields pre @ [''{''] @ Fields inner @ [''}'']"
    using a by (intro Fields_block) simp
  have cp: "list_all (\<lambda>t. \<not> ContainsAny t ''{}'') (Fields pre)"
    and ci: "list_all (\<lambda>t. \<not> ContainsAny t ''{}'') (Fields inner)"
    using a by (simp_all add: Fields_clean)
  have b1: "ContainsAny ''{'' ''{}''" "ContainsAny ''}'' ''{}''" by (simp_all add: ContainsAny_def)
  have "decodeLoop (Fields pre @ [''{''] @ Fields inner @ [''}'']) False [] []
        = decodeLoop ([''{''] @ Fields inner @ [''}'']) False (map stringToUint32 (Fields pre)) []"
    using decodeLoop_clean[OF cp, of "[''{''] @ Fields inner @ [''}'']" False "[]" "[]"] by simp
  also have "\<dots> = decodeLoop (Fields inner @ [''}'']) True (map stringToUint32 (Fields pre)) []"
    using b1 by simp
  also have "\<dots> = decodeLoop [''}''] True (map stringToUint32 (Fields pre))
                     (map stringToUint32 (Fields inner))"
    using decodeLoop_clean[OF ci, of "[''}'']" True "map stringToUint32 (Fields pre)" "[]"] by simp
  also have "\<dots> = (map stringToUint32 (Fields pre), map stringToUint32 (Fields inner))"
    using b1 by simp
  finally show "decodeASPaths (pre @ ''{'' @ inner @ ''}'')
          = (map stringToUint32 (Fields pre), map stringToUint32 (Fields inner))"
    using c r1 r2 f by (simp add: decodeASPaths_def)
qed

text \<open>
  The amended C6 on a path without a set and on a path that ends with a set of two, and
  the same path as \<open>GetASPathFromIP\<close> reads it from the answer of the daemon.
\<close>

theorem as_set_block_witness:
  "decodeASPaths ''3356 12345'' = ([3356, 12345], [])
   \<and> decodeASPaths (''3356 12345 9876 '' @ ''{'' @ ''1212 3434'' @ ''}'')
     = ([3356, 12345, 9876], [1212, 3434])
   \<and> GetASPathFromIP asPathWorld \<lparr>SocketPath = ''/run/bird.ctl''\<rparr> ''192.0.2.1''
     = (\<lparr>Path = [3356, 12345, 9876], Set = [1212, 3434]\<rparr>, True, None)"
proof -
  have h: "\<not> ContainsAny ''3356 12345'' ''{}''" "\<not> ContainsAny ''3356 12345 9876 '' ''{}''"
    "\<not> ContainsAny ''1212 3434'' ''{}''" "isAsciiSpace (last ''3356 12345 9876 '')"
    by (simp_all add: ContainsAny_def isAsciiSpace_def)
  have f: "map stringToUint32 (Fields ''3356 12345'') = [3356, 12345]"
    "map stringToUint32 (Fields ''3356 12345 9876 '') = [3356, 12345, 9876]"
    "map stringToUint32 (Fields ''1212 3434'') = [1212, 3434]"
    by code_simp+
  have g: "GetASPathFromIP asPathWorld \<lparr>SocketPath = ''/run/bird.ctl''\<rparr> ''192.0.2.1''
     = (\<lparr>Path = [3356, 12345, 9876], Set = [1212, 3434]\<rparr>, True, None)"
    by code_simp
  from as_set_block [of "''3356 12345''" "''3356 12345 9876 ''" "''1212 3434''"] h f g
  show ?thesis by simp
qed

text \<open>
  C6 as stated has the set empty unless there is exactly one block, and for one block
  the set holding its interior and the path all that precedes. With two blocks the set
  is not empty; so it is with a lone closing brace. With one block, what follows the
  block is put into the set, and a number that touches the opening brace is left out of
  the path.
\<close>

theorem as_set_block_counterexample:
  "count_list ''1 {2} {3}'' (CHR ''{'') = 2 \<and> count_list ''1 {2} {3}'' (CHR ''}'') = 2
   \<and> decodeASPaths ''1 {2} {3}'' = ([1], [2])
   \<and> count_list ''1 } 2'' (CHR ''{'') = 0
   \<and> decodeASPaths ''1 } 2'' = ([1], [2])
   \<and> decodeASPaths ''1 {2 3} 4'' = ([1], [2, 3, 4])
   \<and> decodeASPaths ''1{2}'' = ([], [2])"
  by code_simp

subsection \<open>Numbers in the output\<close>

lemma digit_value:
  assumes "isDigit c"
  shows "uint (digitVal c) = of_char c - 48" "0 \<le> (of_char c :: int) - 48" "(of_char c :: int) - 48 \<le> 9"
proof -
  have r: "48 \<le> (of_char c :: nat)" "(of_char c :: nat) \<le> 57"
    using assms by (simp_all add: isDigit_def)
  have i: "(of_char c :: int) = int (of_char c)" by (simp add: of_nat_of_char)
  show b: "0 \<le> (of_char c :: int) - 48" "(of_char c :: int) - 48 \<le> 9"
    using r unfolding i by linarith+
  have "(of_char c :: uint64) = word_of_int (of_char c)"
    by (metis of_nat_of_char of_int_of_nat_eq)
  then have "uint (of_char c :: uint64) = take_bit 64 (of_char c :: int)"
    by (simp only: uint_word_of_int_eq len_of_numeral_defs) simp
  also have "\<dots> = of_char c"
    using b by (intro take_bit_int_eq_self) simp_all
  finally have x: "uint (of_char c :: uint64) = of_char c" .
  have "uint (digitVal c) = (uint (of_char c :: uint64) - uint (48 :: uint64)) mod 2 ^ 64"
    unfolding digitVal_def by (simp add: uint_word_ariths)
  also have "\<dots> = of_char c - 48"
    unfolding x using b by (simp add: mod_pos_pos_trivial)
  finally show "uint (digitVal c) = of_char c - 48" .
qed

lemma step_value:
  assumes "isDigit c" "n \<le> (0xFFFFFFFF :: uint64)"
  shows "uint (n * 10 + digitVal c) = uint n * 10 + (of_char c - 48)"
    and "\<not> n \<ge> maxUint64 div 10 + 1"
    and "\<not> n * 10 + digitVal c < n * 10"
proof -
  have n: "uint n \<le> 4294967295" using assms(2) by (simp add: word_le_def)
  have n0: "0 \<le> uint n" by simp
  note d = digit_value[OF assms(1)]
  have m: "uint (n * 10) = uint n * 10"
  proof -
    have "uint (n * 10) = (uint n * 10) mod 2 ^ 64"
      by (simp add: uint_word_ariths)
    also have "\<dots> = uint n * 10" using n n0 by (intro mod_pos_pos_trivial) simp_all
    finally show ?thesis .
  qed
  have "uint (n * 10 + digitVal c) = (uint (n * 10) + uint (digitVal c)) mod 2 ^ 64"
    by (simp add: uint_word_ariths)
  also have "\<dots> = uint n * 10 + (of_char c - 48)"
    unfolding m d(1) using n n0 d(2,3) by (intro mod_pos_pos_trivial) simp_all
  finally show s: "uint (n * 10 + digitVal c) = uint n * 10 + (of_char c - 48)" .
  show "\<not> n \<ge> maxUint64 div 10 + 1"
    using n by (simp add: word_le_def maxUint64_def uint_word_ariths uint_div)
  show "\<not> n * 10 + digitVal c < n * 10"
    using d(2) by (simp add: word_less_def s m)
qed

lemma fromDigits_mono:
  "list_all isDigit s \<Longrightarrow> 0 \<le> n \<Longrightarrow> n \<le> fromDigits n s"
proof (induction s arbitrary: n)
  case Nil
  then show ?case by (simp add: fromDigits_def)
next
  case (Cons c cs)
  then have d: "isDigit c" and r: "list_all isDigit cs" by simp_all
  note v = digit_value[OF d]
  have "n \<le> n * 10 + (of_char c - 48)" using Cons.prems(2) v(2) by simp
  also have "\<dots> \<le> fromDigits (n * 10 + (of_char c - 48)) cs"
    using Cons.prems(2) v(2) by (intro Cons.IH[OF r]) simp
  finally show ?case by (simp add: fromDigits_def)
qed

lemma parseUintLoop_32:
  assumes "n \<le> (0xFFFFFFFF :: uint64)"
  shows "(\<not> list_all isDigit s \<longrightarrow> isl (parseUintLoop 0xFFFFFFFF n s))
         \<and> (list_all isDigit s \<longrightarrow>
              parseUintLoop 0xFFFFFFFF n s =
                (if fromDigits (uint n) s \<le> 4294967295
                 then Inr (word_of_int (fromDigits (uint n) s)) else Inl ErrRange))"
  using assms
proof (induction s arbitrary: n)
  case Nil
  then show ?case by (simp add: fromDigits_def word_le_def)
next
  case (Cons c cs)
  show ?case
  proof (cases "isDigit c")
    case False
    then show ?thesis by simp
  next
    case d: True
    note sv = step_value[OF d Cons.prems]
    let ?n1 = "n * 10 + digitVal c"
    have f: "fromDigits (uint n) (c # cs) = fromDigits (uint ?n1) cs"
      by (simp add: fromDigits_def sv(1))
    show ?thesis
    proof (cases "?n1 > 0xFFFFFFFF")
      case True
      then have big: "uint ?n1 > 4294967295" by (simp add: word_less_def)
      have p: "parseUintLoop 0xFFFFFFFF n (c # cs) = Inl ErrRange"
        using d sv(2,3) True by (simp add: Let_def)
      have "list_all isDigit cs \<Longrightarrow> fromDigits (uint ?n1) cs > 4294967295"
        using fromDigits_mono[of cs "uint ?n1"] big by simp
      then show ?thesis using p f d by auto
    next
      case False
      then have le: "?n1 \<le> 0xFFFFFFFF" by simp
      have p: "parseUintLoop 0xFFFFFFFF n (c # cs) = parseUintLoop 0xFFFFFFFF ?n1 cs"
        using d sv(2,3) False by (simp add: Let_def)
      from Cons.IH[OF le] show ?thesis unfolding p f using d by simp
    qed
  qed
qed

lemma spaceWidth_prefix: "spaceWidth (a @ b) = 0 \<Longrightarrow> spaceWidth a = 0"
proof (cases a)
  case Nil
  then show ?thesis by simp
next
  case a1: (Cons x xs)
  assume z: "spaceWidth (a @ b) = 0"
  show ?thesis
  proof (cases xs)
    case Nil
    then show ?thesis using a1 z by (cases b; cases "tl b") (auto split: if_splits)
  next
    case a2: (Cons y ys)
    show ?thesis
    proof (cases ys)
      case Nil
      then show ?thesis using a1 a2 z by (cases b) (auto split: if_splits)
    next
      case (Cons z zs)
      then show ?thesis using a1 a2 z by (auto split: if_splits)
    qed
  qed
qed

lemma fieldsFrom_spaceFree:
  "(\<forall>i<length cur. spaceWidth (drop i cur @ s) = 0) \<Longrightarrow> t \<in> set (fieldsFrom cur s)
   \<Longrightarrow> spaceFree t"
proof (induction cur s rule: fieldsFrom.induct)
  case (1 cur s)
  show ?case
  proof (cases "s = []")
    case True
    then have "t = cur" using "1.prems"(2)
      by (auto simp: fieldsFrom.simps[of cur "[]"] split: if_splits)
    then show ?thesis using "1.prems"(1) True by (simp add: spaceFree_def)
  next
    case ne: False
    show ?thesis
    proof (cases "spaceWidth s = 0")
      case True
      have m: "t \<in> set (fieldsFrom (cur @ [hd s]) (tl s))"
        using "1.prems"(2) ne True by (simp add: fieldsFrom.simps[of cur s])
      have "\<forall>i<length (cur @ [hd s]). spaceWidth (drop i (cur @ [hd s]) @ tl s) = 0"
      proof (intro allI impI)
        fix i assume "i < length (cur @ [hd s])"
        then consider "i < length cur" | "i = length cur" by fastforce
        then show "spaceWidth (drop i (cur @ [hd s]) @ tl s) = 0"
        proof cases
          case 1
          then show ?thesis using "1.prems"(1) ne by simp
        next
          case 2
          then show ?thesis using True ne by simp
        qed
      qed
      from "1.IH"(1)[OF ne True this m] show ?thesis .
    next
      case False
      then have "(t = cur \<and> cur \<noteq> []) \<or> t \<in> set (fieldsFrom [] (drop (spaceWidth s) s))"
        using "1.prems"(2) ne by (auto simp: fieldsFrom.simps[of cur s] split: if_splits)
      then show ?thesis
      proof
        assume "t = cur \<and> cur \<noteq> []"
        then show ?thesis
          using "1.prems"(1) spaceWidth_prefix by (auto simp: spaceFree_def)
      next
        assume "t \<in> set (fieldsFrom [] (drop (spaceWidth s) s))"
        from "1.IH"(2)[OF ne False _ this] show ?thesis by simp
      qed
    qed
  qed
qed

lemma spaceFree_left: "spaceFree t \<Longrightarrow> trimLeftSpace t = t"
proof -
  assume "spaceFree t"
  then have "spaceWidth t = 0" by (cases t) (auto simp: spaceFree_def)
  then show ?thesis by (simp add: trimLeftSpace.simps)
qed

lemma spaceFree_right: "spaceFree t \<Longrightarrow> spaceWidthRev (rev t) = 0"
proof -
  assume f: "spaceFree t"
  have q: "\<And>pre suf. t = pre @ suf \<Longrightarrow> suf \<noteq> [] \<Longrightarrow> spaceWidth suf = 0"
  proof -
    fix pre suf assume "t = pre @ suf" "suf \<noteq> []"
    then have "length pre < length t" "drop (length pre) t = suf" by simp_all
    then show "spaceWidth suf = 0" using f unfolding spaceFree_def by metis
  qed
  show ?thesis
  proof (cases "rev t")
    case Nil
    then show ?thesis by simp
  next
    case r1: (Cons e r)
    then have t1: "t = rev r @ [e]" by (metis rev.simps(2) rev_rev_ident)
    from q[OF t1] have ne: "\<not> isAsciiSpace e" by (auto split: if_splits)
    show ?thesis
    proof (cases r)
      case Nil
      then show ?thesis using r1 ne by simp
    next
      case r2: (Cons d r')
      then have t2: "t = rev r' @ [d, e]" using t1 by simp
      from q[OF t2] have nd: "\<not> isSpace2 d e" by (auto split: if_splits)
      show ?thesis
      proof (cases r')
        case Nil
        then show ?thesis using r1 r2 ne nd by simp
      next
        case (Cons c r'')
        then have t3: "t = rev r'' @ [c, d, e]" using t2 by simp
        from q[OF t3] have "\<not> isSpace3 c d e" by (auto split: if_splits)
        then show ?thesis using r1 r2 Cons ne nd by simp
      qed
    qed
  qed
qed

lemma Fields_TrimSpace: "t \<in> set (Fields s) \<Longrightarrow> TrimSpace t = t"
proof -
  assume "t \<in> set (Fields s)"
  then have f: "spaceFree t" unfolding Fields_def by (intro fieldsFrom_spaceFree[of "[]" s]) simp_all
  have "trimRevSpace (rev t) = rev t"
    using spaceFree_right[OF f] by (simp add: trimRevSpace.simps)
  then show ?thesis by (simp add: TrimSpace_def spaceFree_left[OF f])
qed

lemma parseUintLoop_bad:
  "n \<le> (0xFFFFFFFF :: uint64) \<Longrightarrow> \<not> list_all isDigit s \<Longrightarrow> isl (parseUintLoop 0xFFFFFFFF n s)"
  using parseUintLoop_32 by blast

lemma parseUintLoop_digits:
  "n \<le> (0xFFFFFFFF :: uint64) \<Longrightarrow> list_all isDigit s \<Longrightarrow>
   parseUintLoop 0xFFFFFFFF n s =
     (if fromDigits (uint n) s \<le> 4294967295 then Inr (word_of_int (fromDigits (uint n) s))
      else Inl ErrRange)"
  using parseUintLoop_32 by blast

lemma maxVal_32: "(push_bit 32 1 - 1 :: uint64) = 0xFFFFFFFF"
  by simp

lemma ParseUint_bad: "notUint32 t \<Longrightarrow> isl (ParseUint t 32)"
proof (cases "t = []")
  case True
  then show ?thesis by (simp add: ParseUint_def)
next
  case ne: False
  assume b: "notUint32 t"
  have z: "(0 :: uint64) \<le> 0xFFFFFFFF" by simp
  have "isl (parseUintLoop 0xFFFFFFFF 0 t)"
  proof (cases "list_all isDigit t")
    case True
    then have "decimal t > 4294967295" using b ne by (simp add: notUint32_def)
    then show ?thesis
      using parseUintLoop_digits[OF z True] by (simp add: decimal_def)
  next
    case False
    then show ?thesis by (rule parseUintLoop_bad[OF z])
  qed
  then show ?thesis
    unfolding ParseUint_def maxVal_32 using ne by (cases "parseUintLoop 0xFFFFFFFF 0 t") simp_all
qed

lemma ParseUint_good: "\<not> notUint32 t \<Longrightarrow> ParseUint t 32 = Inr (word_of_int (decimal t))"
proof -
  assume "\<not> notUint32 t"
  then have ne: "t \<noteq> []" and d: "list_all isDigit t" and le: "decimal t \<le> 4294967295"
    by (simp_all add: notUint32_def)
  have z: "(0 :: uint64) \<le> 0xFFFFFFFF" by simp
  have "parseUintLoop 0xFFFFFFFF 0 t = Inr (word_of_int (decimal t))"
    using parseUintLoop_digits[OF z d] le by (simp add: decimal_def)
  then show ?thesis unfolding ParseUint_def maxVal_32 using ne by simp
qed

lemma ucast_decimal:
  assumes "\<not> notUint32 t"
  shows "(ucast (word_of_int (decimal t) :: uint64) :: uint32) = word_of_int (decimal t)"
proof -
  from assms have d: "list_all isDigit t" and le: "decimal t \<le> 4294967295"
    by (simp_all add: notUint32_def)
  have "0 \<le> decimal t" using fromDigits_mono[OF d, of 0] by (simp add: decimal_def)
  then have "uint (word_of_int (decimal t) :: uint64) = decimal t"
    using le by (simp add: uint_word_of_int_eq take_bit_int_eq_self)
  then show ?thesis by (simp add: ucast_eq)
qed

lemma stringToUint32_value:
  "stringToUint32 s =
     (if notUint32 (TrimSpace s) then 0 else word_of_int (decimal (TrimSpace s)))"
proof (cases "notUint32 (TrimSpace s)")
  case True
  then have "isl (ParseUint (TrimSpace s) 32)" by (rule ParseUint_bad)
  then show ?thesis
    using True by (cases "ParseUint (TrimSpace s) 32") (simp_all add: stringToUint32_def Let_def)
next
  case False
  then have "ParseUint (TrimSpace s) 32 = Inr (word_of_int (decimal (TrimSpace s)))"
    by (rule ParseUint_good)
  moreover have "TrimSpace s \<noteq> []" using False by (simp add: notUint32_def)
  ultimately show ?thesis using False by (simp add: stringToUint32_def ucast_decimal)
qed

lemma stringToUint32_field:
  "t \<in> set (Fields s) \<Longrightarrow>
   stringToUint32 t = (if notUint32 t then 0 else word_of_int (decimal t))"
  by (simp add: stringToUint32_value Fields_TrimSpace)

text \<open>
  C10, as amended. \<open>stringToUint32\<close> is total and has no error to report. It
  trims white space first; when what is left is empty, has a byte that is no digit, or
  writes a number above \<open>2^32 - 1\<close>, the result is 0, and otherwise it is the
  number. So \<open>GetBGPTotal\<close> returns no error but that of its query and a count 0 for
  a number it cannot hold, \<open>extractRouteCount\<close> returns 0 when the first field of
  the output is no \<open>uint32\<close>, and \<open>decodeASPaths\<close> puts 0 for every such field
  of a path.
\<close>

theorem number_tokens_never_fail:
  "(notUint32 (TrimSpace s) \<longrightarrow> stringToUint32 s = 0)
   \<and> (\<not> notUint32 (TrimSpace s) \<longrightarrow> stringToUint32 s = word_of_int (decimal (TrimSpace s)))
   \<and> snd (GetBGPTotal w b) = snd (query w b ''show route count'')
   \<and> (length (FindStringSubmatch reTotals line) \<ge> 3 \<and> Contains line ''master4''
        \<and> notUint32 (TrimSpace (FindStringSubmatch reTotals line ! 1))
      \<longrightarrow> V4Rib (totalsLine t line) = 0)
   \<and> (Fields output = f # fs \<and> notUint32 f \<longrightarrow> extractRouteCount output = 0)
   \<and> (\<not> ContainsAny path ''{}''
      \<longrightarrow> decodeASPaths path
          = (map (\<lambda>t. if notUint32 t then 0 else word_of_int (decimal t)) (Fields path), []))"
proof (intro conjI impI)
  show "notUint32 (TrimSpace s) \<Longrightarrow> stringToUint32 s = 0"
    by (simp add: stringToUint32_value)
  show "\<not> notUint32 (TrimSpace s) \<Longrightarrow> stringToUint32 s = word_of_int (decimal (TrimSpace s))"
    by (simp add: stringToUint32_value)
  show "snd (GetBGPTotal w b) = snd (query w b ''show route count'')"
    by (cases "query w b ''show route count''")
       (auto simp: GetBGPTotal_def Let_def split: option.splits)
  show "V4Rib (totalsLine t line) = 0"
    if "length (FindStringSubmatch reTotals line) \<ge> 3 \<and> Contains line ''master4''
        \<and> notUint32 (TrimSpace (FindStringSubmatch reTotals line ! 1))"
    using that by (simp add: totalsLine_def Let_def stringToUint32_value)
  show "extractRouteCount output = 0" if "Fields output = f # fs \<and> notUint32 f"
  proof -
    from that have "f \<in> set (Fields output)" by simp
    from stringToUint32_field[OF this] that show ?thesis
      by (simp add: extractRouteCount_def Let_def)
  qed
  show "decodeASPaths path
          = (map (\<lambda>t. if notUint32 t then 0 else word_of_int (decimal t)) (Fields path), [])"
    if a: "\<not> ContainsAny path ''{}''"
  proof -
    have "map stringToUint32 (Fields path)
          = map (\<lambda>t. if notUint32 t then 0 else word_of_int (decimal t)) (Fields path)"
      by (rule map_cong) (simp_all add: stringToUint32_field)
    moreover have "decodeASPaths path = (map stringToUint32 (Fields path), [])"
      using decodeLoop_clean[OF Fields_clean[OF a], of "[]" False "[]" "[]"] a
      by (simp add: decodeASPaths_def)
    ultimately show ?thesis by simp
  qed
qed

text \<open>
  The amended C10 on a number one above the largest \<open>uint32\<close>, on the largest, on
  a token with a letter, and on outputs of the three decoders with such tokens.
\<close>

theorem number_tokens_never_fail_witness:
  "stringToUint32 ''4294967296'' = 0 \<and> stringToUint32 ''12x'' = 0 \<and> stringToUint32 [] = 0
   \<and> stringToUint32 ''4294967295'' = 4294967295
   \<and> GetBGPTotal overflowWorld \<lparr>SocketPath = ''/run/bird.ctl''\<rparr>
     = (\<lparr>V4Rib = 0, V4Fib = 1038207, V6Rib = 0, V6Fib = 0\<rparr>, None)
   \<and> extractRouteCount ''99999999999 of 99999999999 routes'' = 0
   \<and> decodeASPaths ''3356 abc 4294967296'' = ([3356, 0, 0], [])"
proof -
  have t: "TrimSpace ''4294967296'' = ''4294967296''" "TrimSpace ''4294967295'' = ''4294967295''"
    by code_simp+
  have n: "notUint32 ''4294967296''" "\<not> notUint32 ''4294967295''"
    by (simp_all add: notUint32_def decimal_def fromDigits_def isDigit_def)
  have d: "(word_of_int (decimal ''4294967295'') :: uint32) = 4294967295"
    by (simp add: decimal_def fromDigits_def)
  have e: "stringToUint32 ''12x'' = 0" "stringToUint32 [] = 0"
    "GetBGPTotal overflowWorld \<lparr>SocketPath = ''/run/bird.ctl''\<rparr>
     = (\<lparr>V4Rib = 0, V4Fib = 1038207, V6Rib = 0, V6Fib = 0\<rparr>, None)"
    "extractRouteCount ''99999999999 of 99999999999 routes'' = 0"
    "decodeASPaths ''3356 abc 4294967296'' = ([3356, 0, 0], [])"
    by code_simp+
  from number_tokens_never_fail [where s = "''4294967296''"] t n
  have a: "stringToUint32 ''4294967296'' = 0" by simp
  from number_tokens_never_fail [where s = "''4294967295''"] t n d
  have b: "stringToUint32 ''4294967295'' = 4294967295" by simp
  from a b e show ?thesis by simp
qed

text \<open>
  C10 as stated has 0 for every string with a byte that is no digit. The space before
  \<open>42\<close> is such a byte, and the result is 42, the white space being trimmed.
\<close>

theorem number_tokens_never_fail_counterexample:
  "\<not> list_all isDigit '' 42'' \<and> stringToUint32 '' 42'' = 42 \<and> stringToUint32 '' 42'' \<noteq> 0"
  by code_simp

end
